theory Spec2Isabelle
  imports Main "HOL-Library.Word"
begin

section \<open>JavaScript strings and the text normaliser\<close>

text \<open>
  A JavaScript string is a sequence of UTF-16 code units, and \<^verbatim>\<open>length\<close> counts code
  units. The whitespace class of a regular expression (\<^verbatim>\<open>\s\<close>) and of
  \<^verbatim>\<open>String.prototype.trim\<close> is the same set: ECMAScript's WhiteSpace and
  LineTerminator code points, which all lie in the basic plane.
\<close>

type_synonym jsstring = "16 word list"

definition js :: "string \<Rightarrow> jsstring" where
  "js s = map of_char s"

definition sp :: "16 word" where
  "sp = 0x20"

definition is_ws :: "16 word \<Rightarrow> bool" where
  "is_ws c = (c \<in> set [0x9, 0xA, 0xB, 0xC, 0xD, 0x20, 0xA0, 0x1680, 0x2028, 0x2029,
                        0x202F, 0x205F, 0x3000, 0xFEFF]
     \<or> (0x2000 \<le> c \<and> c \<le> 0x200A))"

text \<open>
  \<^verbatim>\<open>text.replace(/X+/g, " ")\<close> for a character class \<open>X\<close>: scanning from the left, every
  maximal run of code units in the class becomes one ASCII space.
\<close>

function replace_runs :: "(16 word \<Rightarrow> bool) \<Rightarrow> jsstring \<Rightarrow> jsstring" where
  "replace_runs P [] = []"
| "replace_runs P (c # cs) =
     (if P c then sp # replace_runs P (dropWhile P cs) else c # replace_runs P cs)"
  by pat_completeness auto
termination
  by (relation "measure (\<lambda>(P, s). length s)") (auto simp: le_imp_less_Suc length_dropWhile_le)

text \<open>
  \<^verbatim>\<open>text.replace(/(\r\n|\n|\r)/gm, " ")\<close>: the alternatives are tried in order at each
  position, so a carriage return followed by a line feed is one match.
\<close>

fun replace_linebreaks :: "jsstring \<Rightarrow> jsstring" where
  "replace_linebreaks [] = []"
| "replace_linebreaks [c] = (if c = 0xA \<or> c = 0xD then [sp] else [c])"
| "replace_linebreaks (c # d # ds) =
     (if c = 0xD \<and> d = 0xA then sp # replace_linebreaks ds
      else if c = 0xA \<or> c = 0xD then sp # replace_linebreaks (d # ds)
      else c # replace_linebreaks (d # ds))"

text \<open>
  \<^verbatim>\<open>text.replace(/\u00A0/g, " ")\<close>, with \<open>x\<close> for the code unit of the pattern: every
  occurrence becomes an ASCII space.
\<close>

definition replace_each :: "16 word \<Rightarrow> jsstring \<Rightarrow> jsstring" where
  "replace_each x s = map (\<lambda>c. if c = x then sp else c) s"

definition trimEnd :: "jsstring \<Rightarrow> jsstring" where
  "trimEnd s = rev (dropWhile is_ws (rev s))"

definition trim :: "jsstring \<Rightarrow> jsstring" where
  "trim s = trimEnd (dropWhile is_ws s)"

text \<open>
  \<^verbatim>\<open>cleanContent\<close> of the ES-module scraper (\<^verbatim>\<open>src/scraper.js\<close>): the empty string is
  falsy and returned at once; then \<^verbatim>\<open>/\s+/g\<close>, \<^verbatim>\<open>/\n+/g\<close>, \<^verbatim>\<open>/\t+/g\<close> and
  \<^verbatim>\<open>trim\<close>.
\<close>

definition cleanContent_esm :: "jsstring \<Rightarrow> jsstring" where
  "cleanContent_esm t =
     (if t = [] then []
      else trim (replace_runs (\<lambda>c. c = 0x9) (replace_runs (\<lambda>c. c = 0xA) (replace_runs is_ws t))))"

text \<open>
  \<^verbatim>\<open>cleanContent\<close> of the CommonJS scraper: line breaks, then \<^verbatim>\<open>/\s+/g\<close>, then
  \<^verbatim>\<open>/\u00A0/g\<close>, then \<^verbatim>\<open>trim\<close>.
\<close>

definition cleanContent_cjs :: "jsstring \<Rightarrow> jsstring" where
  "cleanContent_cjs t = trim (replace_each 0xA0 (replace_runs is_ws (replace_linebreaks t)))"

text \<open>
  The normaliser as the specification words it: the maximal runs of non-whitespace of
  the input (\<open>tokens\<close>), joined by single ASCII spaces (\<open>join_sp\<close>, which is also \<^verbatim>\<open>Array.prototype.join(" ")\<close>). A string is \<open>tidy\<close>
  when its only whitespace is the ASCII space and no two whitespace code units are
  adjacent.
\<close>

function tokens :: "jsstring \<Rightarrow> jsstring list" where
  "tokens s =
     (case dropWhile is_ws s of
        [] \<Rightarrow> []
      | c # cs \<Rightarrow> (c # takeWhile (\<lambda>x. \<not> is_ws x) cs) # tokens (dropWhile (\<lambda>x. \<not> is_ws x) cs))"
  by pat_completeness auto
termination
proof (relation "measure length")
  show "wf (measure length)" by simp
next
  fix s :: jsstring and c cs
  assume a: "dropWhile is_ws s = c # cs"
  have "length (dropWhile (\<lambda>x. \<not> is_ws x) cs) \<le> length cs"
    by (rule length_dropWhile_le)
  moreover have "length (c # cs) \<le> length s"
    using length_dropWhile_le[of is_ws s] a by simp
  ultimately show "(dropWhile (\<lambda>x. \<not> is_ws x) cs, s) \<in> measure length"
    by simp
qed

declare tokens.simps [simp del]

fun join_sp :: "jsstring list \<Rightarrow> jsstring" where
  "join_sp [] = []"
| "join_sp [w] = w"
| "join_sp (w # v # ws) = w @ sp # join_sp (v # ws)"

definition normalize_spec :: "jsstring \<Rightarrow> jsstring" where
  "normalize_spec s = join_sp (tokens s)"

fun tidy :: "jsstring \<Rightarrow> bool" where
  "tidy [] = True"
| "tidy [c] = (if is_ws c then c = sp else True)"
| "tidy (c # d # ds) = ((if is_ws c then c = sp \<and> \<not> is_ws d else True) \<and> tidy (d # ds))"

section \<open>The URL classifier\<close>

text \<open>
  Exceptions and rejected promises are values. \<open>InvalidURL\<close> is the \<^verbatim>\<open>TypeError\<close> of
  \<^verbatim>\<open>new URL\<close>; the others are rejections of the browser-automation calls.
\<close>

datatype js_error = InvalidURL | LaunchFailed | PageFailed | ContentFailed | CloseFailed

text \<open>
  The patterns of \<^verbatim>\<open>isHomepage\<close> have three shapes: \<^verbatim>\<open>/^\/$/\<close> (\<open>Root\<close>),
  \<^verbatim>\<open>/^\/name\.(html|php|asp|jsp)$/i\<close> (\<open>File name\<close>) and \<^verbatim>\<open>/^\/name\/?$/i\<close>
  (\<open>Dir name\<close>). Without the \<^verbatim>\<open>u\<close> flag, the \<^verbatim>\<open>i\<close> flag lets an ASCII letter of
  the pattern match exactly its two ASCII cases, so matching compares the path with its
  ASCII letters lowered. The \<^verbatim>\<open>pathname\<close> of a parsed URL is an ASCII string.
\<close>

definition lower :: "char \<Rightarrow> char" where
  "lower c =
     (case map_of (zip ''ABCDEFGHIJKLMNOPQRSTUVWXYZ'' ''abcdefghijklmnopqrstuvwxyz'') c of
        Some l \<Rightarrow> l
      | None \<Rightarrow> c)"

datatype pattern = Root | File string | Dir string

fun pattern_test :: "pattern \<Rightarrow> string \<Rightarrow> bool" where
  "pattern_test Root path = (path = ''/'')"
| "pattern_test (File name) path =
     (map lower path \<in> set (map (\<lambda>ext. ''/'' @ name @ ''.'' @ ext) [''html'', ''php'', ''asp'', ''jsp'']))"
| "pattern_test (Dir name) path =
     (map lower path = ''/'' @ name \<or> map lower path = ''/'' @ name @ ''/'')"

definition homepagePatterns :: "pattern list" where
  "homepagePatterns =
     [Root, File ''index'', File ''home'', File ''default'', File ''welcome'', Dir ''home'', Dir ''main'']"

definition boilerplate :: "string list" where
  "boilerplate = [''about'', ''contact'', ''faq'', ''help'', ''support'', ''terms'', ''privacy'',
                  ''login'', ''signup'', ''register'', ''account'']"

definition nonArticlePatterns :: "pattern list" where
  "nonArticlePatterns = map Dir boilerplate"

text \<open>
  \<^verbatim>\<open>isHomepage(url)\<close>. The URL parser belongs to the runtime, so it is a parameter:
  \<open>pathname url\<close> is \<^verbatim>\<open>new URL(url).pathname\<close>, and \<open>None\<close> when the constructor throws.
  \<open>isHomepage_try\<close> is the body of the \<^verbatim>\<open>try\<close> block, \<open>isHomepage\<close> adds the
  \<^verbatim>\<open>catch\<close>, which returns \<^verbatim>\<open>false\<close>.
\<close>

definition isHomepage_try :: "(jsstring \<Rightarrow> string option) \<Rightarrow> jsstring \<Rightarrow> js_error + bool" where
  "isHomepage_try pathname url =
     (case pathname url of
        None \<Rightarrow> Inl InvalidURL
      | Some path \<Rightarrow>
          if list_ex (\<lambda>p. pattern_test p path) homepagePatterns then Inr True
          else if path = [] \<or> path = ''/'' then Inr True
          else if list_ex (\<lambda>p. pattern_test p path) nonArticlePatterns then Inr True
          else Inr False)"

definition isHomepage :: "(jsstring \<Rightarrow> string option) \<Rightarrow> jsstring \<Rightarrow> js_error + bool" where
  "isHomepage pathname url =
     (case isHomepage_try pathname url of
        Inl error \<Rightarrow> Inr False
      | Inr b \<Rightarrow> Inr b)"

section \<open>The parsed document and the extractors\<close>

text \<open>
  The markup parser is a library, so the parsed document is what it answers:
  \<open>q selector\<close> is the selection \<^verbatim>\<open>$(selector)\<close> in document order, asked after the
  pruning call \<^verbatim>\<open>$("script, style, nav, ...").remove()\<close> that both copies make before
  any extraction. Of an element the code reads its text content, its attributes, and (in
  the CommonJS copy) the text of a clone without its \<^verbatim>\<open>p\<close> and \<^verbatim>\<open>div\<close> descendants.
\<close>

record element =
  el_text :: jsstring
  el_bare :: jsstring
  el_attrs :: "(string \<times> jsstring) list"

type_synonym cheerio = "string \<Rightarrow> element list"

text \<open>
  \<^verbatim>\<open>.text()\<close> of a selection concatenates the text of its elements; \<^verbatim>\<open>.attr(name)\<close>
  reads the first element only and is \<^verbatim>\<open>undefined\<close> (\<open>None\<close>) when there is no
  element or no such attribute; \<^verbatim>\<open>a || b\<close> is \<open>b\<close> when \<open>a\<close> is \<^verbatim>\<open>undefined\<close> or
  the empty string.
\<close>

definition sel_text :: "element list \<Rightarrow> jsstring" where
  "sel_text els = concat (map el_text els)"

definition attr :: "element list \<Rightarrow> string \<Rightarrow> jsstring option" where
  "attr els name = (case els of [] \<Rightarrow> None | e # _ \<Rightarrow> map_of (el_attrs e) name)"

definition truthy :: "jsstring option \<Rightarrow> bool" where
  "truthy v = (case v of None \<Rightarrow> False | Some s \<Rightarrow> s \<noteq> [])"

definition js_or :: "jsstring option \<Rightarrow> jsstring option \<Rightarrow> jsstring option" where
  "js_or a b = (if truthy a then a else b)"

subsection \<open>Publication date\<close>

definition dateSelectors :: "string list" where
  "dateSelectors =
     [''meta[property=\"article:published_time\"]'', ''meta[name=\"publish_date\"]'',
      ''meta[name=\"date\"]'', ''meta[name=\"pubdate\"]'', ''meta[name=\"publication_date\"]'',
      ''time[datetime]'', ''.date'', ''.published'', ''.pubdate'', ''.timestamp'']"

text \<open>
  The ES-module \<^verbatim>\<open>extractPublicationDate\<close>: \<open>date_of element\<close> is
  \<^verbatim>\<open>element.attr("content") || element.attr("datetime") || element.text()\<close>, and
  \<open>probe_dates\<close> is the loop over the selectors still to try; \<open>None\<close> is \<^verbatim>\<open>null\<close>.
\<close>

definition date_of :: "element list \<Rightarrow> jsstring option" where
  "date_of element =
     js_or (attr element ''content'') (js_or (attr element ''datetime'') (Some (sel_text element)))"

fun probe_dates :: "cheerio \<Rightarrow> string list \<Rightarrow> jsstring option" where
  "probe_dates q [] = None"
| "probe_dates q (selector # rest) =
     (let element = q selector in
      if length element > 0 then
        (case date_of element of
           Some d \<Rightarrow> if d \<noteq> [] then Some (trim d) else probe_dates q rest
         | None \<Rightarrow> probe_dates q rest)
      else probe_dates q rest)"

definition extractPublicationDate_esm :: "cheerio \<Rightarrow> jsstring option" where
  "extractPublicationDate_esm q = probe_dates q dateSelectors"

text \<open>
  The CommonJS \<^verbatim>\<open>extractPublicationDate\<close>. Date parsing belongs to the runtime:
  \<open>toISOString s\<close> is \<^verbatim>\<open>new Date(s).toISOString()\<close>, and \<open>None\<close> when the date is
  invalid and \<^verbatim>\<open>toISOString\<close> throws its \<^verbatim>\<open>RangeError\<close>, which the function catches.
  \<^verbatim>\<open>.split("T")[0]\<close> is the part before the first \<^verbatim>\<open>T\<close>.
\<close>

definition extractPublicationDate_cjs :: "(jsstring \<Rightarrow> jsstring option) \<Rightarrow> cheerio \<Rightarrow> jsstring option" where
  "extractPublicationDate_cjs toISOString q =
     (let dateStr =
            js_or (attr (q ''meta[property=\"article:published_time\"]'') ''content'')
              (js_or (attr (q ''meta[name=\"pubdate\"]'') ''content'')
                (js_or (attr (q ''meta[name=\"publication_date\"]'') ''content'')
                   (attr (q ''meta[name=\"date\"]'') ''content'')));
          dateStr =
            (if \<not> truthy dateStr then
               (let timeEl = take 1 (q ''time[datetime]'') in
                if length timeEl > 0 then attr timeEl ''datetime'' else dateStr)
             else dateStr)
      in case dateStr of
           None \<Rightarrow> None
         | Some d \<Rightarrow>
             if d \<noteq> [] then
               (case toISOString d of
                  Some stamp \<Rightarrow> Some (takeWhile (\<lambda>c. c \<noteq> 0x54) stamp)
                | None \<Rightarrow> None)
             else None)"

subsection \<open>Title\<close>

text \<open>\<^verbatim>\<open>$("title").text() || $("h1").first().text() || ""\<close>, the same in both copies.\<close>

definition extractTitle :: "cheerio \<Rightarrow> jsstring" where
  "extractTitle q =
     (if sel_text (q ''title'') \<noteq> [] then sel_text (q ''title'')
      else if sel_text (take 1 (q ''h1'')) \<noteq> [] then sel_text (take 1 (q ''h1''))
      else [])"

subsection \<open>Content, ES-module copy\<close>

definition contentSelectors :: "string list" where
  "contentSelectors =
     [''article'', ''.article'', ''.content'', ''#content'', ''main'', ''.post'', ''.entry'',
      ''.story'', ''.text'', ''.body'']"

text \<open>
  The container loop: \<^verbatim>\<open>extractedText\<close> starts empty, and the first selector whose
  trimmed text is longer than 200 code units sets it and breaks.
\<close>

fun find_container :: "cheerio \<Rightarrow> string list \<Rightarrow> jsstring" where
  "find_container q [] = []"
| "find_container q (selector # rest) =
     (let element = q selector in
      if length element > 0 then
        (let t = trim (sel_text element) in
         if length t > 200 then t else find_container q rest)
      else find_container q rest)"

text \<open>The value of \<^verbatim>\<open>extractedText\<close> that is handed to \<^verbatim>\<open>cleanContent\<close>.\<close>

definition extractText_esm :: "cheerio \<Rightarrow> jsstring" where
  "extractText_esm q =
     (let extractedText = find_container q contentSelectors;
          extractedText =
            (if extractedText = [] \<or> length extractedText < 200
             then trim (join_sp (map (\<lambda>el. trim (el_text el)) (q ''p'')))
             else extractedText);
          extractedText =
            (if extractedText = [] \<or> length extractedText < 100
             then trim (sel_text (q ''body''))
             else extractedText)
      in extractedText)"

subsection \<open>Content, CommonJS copy\<close>

definition articleSelectors :: "string list" where
  "articleSelectors =
     [''article'', ''.article'', ''.post'', ''.entry'', ''.content'', ''#content'',
      ''.article-content'', ''.post-content'', ''.entry-content'', ''main'', ''[role='main']'',
      ''.main-content'', ''#main-content'', ''.body-content'', ''#body-content'']"

text \<open>
  The container loop of the CommonJS copy assigns \<^verbatim>\<open>mainContent\<close> for every selector
  that matches, and breaks when the text is longer than 500 code units. The second
  argument is the current value of \<^verbatim>\<open>mainContent\<close>.
\<close>

fun find_main :: "cheerio \<Rightarrow> jsstring \<Rightarrow> string list \<Rightarrow> jsstring" where
  "find_main q mainContent [] = mainContent"
| "find_main q mainContent (selector # rest) =
     (let element = q selector in
      if length element > 0 then
        (let mainContent = trim (sel_text element) in
         if length mainContent > 500 then mainContent else find_main q mainContent rest)
      else find_main q mainContent rest)"

text \<open>
  The value of \<^verbatim>\<open>allText\<close> before the whole-body fallback: the title, a space and the
  container text, or the template of title, headings, paragraphs, list items and the
  bare text of the structural elements.
\<close>

definition composeText_cjs :: "cheerio \<Rightarrow> jsstring" where
  "composeText_cjs q =
     (let title = extractTitle q;
          mainContent = find_main q [] articleSelectors
      in if length mainContent > 500 then title @ [sp] @ mainContent
         else
           (let paragraphText = join_sp (map (\<lambda>el. trim (el_text el)) (q ''p''));
                headingText = join_sp (map (\<lambda>el. trim (el_text el)) (q ''h1, h2, h3, h4, h5, h6''));
                listText = join_sp (map (\<lambda>el. trim (el_text el)) (q ''li''));
                otherContentText =
                  join_sp (map (\<lambda>el. trim (el_bare el)) (q ''article, section, main, .content, #content''))
            in title @ [sp] @ headingText @ [sp] @ paragraphText @ [sp] @ listText @ [sp] @ otherContentText))"

definition bodyFallback_cjs :: "cheerio \<Rightarrow> bool" where
  "bodyFallback_cjs q = (composeText_cjs q = [] \<or> length (trim (composeText_cjs q)) < 50)"

definition extractText_cjs :: "cheerio \<Rightarrow> jsstring" where
  "extractText_cjs q =
     (if bodyFallback_cjs q then trim (sel_text (q ''body'')) else composeText_cjs q)"

section \<open>The fetch orchestrator\<close>

text \<open>
  What the browser and the site do during one call of \<^verbatim>\<open>scrapeContent\<close> is the
  call's environment:
  \<^item> \<open>launch_ok\<close>: \<^verbatim>\<open>puppeteer.launch\<close> resolves (else it rejects);
  \<^item> \<open>page_ok\<close>: \<^verbatim>\<open>newPage\<close>, \<^verbatim>\<open>setDefaultNavigationTimeout\<close>,
    \<^verbatim>\<open>setRequestInterception\<close> and \<^verbatim>\<open>setUserAgent\<close> all resolve;
  \<^item> \<open>goto n\<close>: how the race of the \<open>n\<close>-th \<^verbatim>\<open>page.goto\<close> against the timer settles:
    the navigation resolves first, with a response or with \<^verbatim>\<open>null\<close>, or it rejects
    first, or the timer rejects first;
  \<^item> \<open>content_ok\<close>: \<^verbatim>\<open>page.content()\<close> resolves, and \<open>dom\<close> is the parsed markup;
  \<^item> \<open>close_ok\<close>: \<^verbatim>\<open>browser.close()\<close> resolves.
  A response carries its status code; \<open>Response None\<close> is a response object without a
  \<^verbatim>\<open>status\<close> member, which the validity check lets pass.
\<close>

datatype response = Response "nat option"

datatype nav_outcome = Settled "response option" | GotoRejected | TimerWon

record site =
  launch_ok :: bool
  page_ok :: bool
  goto :: "nat \<Rightarrow> nav_outcome"
  content_ok :: bool
  dom :: cheerio
  close_ok :: bool

text \<open>
  The calls that the claims speak about are recorded in order. \<open>Navigate n ms\<close> is the
  \<open>n\<close>-th \<^verbatim>\<open>page.goto\<close>, raced against a timer of \<open>ms\<close> milliseconds; \<open>Sleep ms\<close> is
  an awaited \<^verbatim>\<open>setTimeout\<close>; \<open>Close\<close> is the call of \<^verbatim>\<open>browser.close()\<close>.
\<close>

datatype event = Launch | OpenPage | Navigate nat nat | Sleep nat | AwaitSelector nat
  | ReadContent | Close

text \<open>
  The object \<^verbatim>\<open>scrapeContent\<close> returns. \<open>pageTitle\<close> is its \<^verbatim>\<open>title\<close> property, which
  only the success path of the ES-module copy sets.
\<close>

record scraped =
  content :: jsstring
  publishedDate :: "jsstring option"
  pageTitle :: "jsstring option"

definition no_content :: scraped where
  "no_content = \<lparr>content = [], publishedDate = None, pageTitle = None\<rparr>"

text \<open>The value \<^verbatim>\<open>await Promise.race([...])\<close> gives, or \<open>None\<close> when the race rejects.\<close>

fun settled :: "nav_outcome \<Rightarrow> response option option" where
  "settled (Settled r) = Some r"
| "settled GotoRejected = None"
| "settled TimerWon = None"

text \<open>
  The retry loop \<^verbatim>\<open>while (!response && attempts < maxAttempts)\<close> with
  \<^verbatim>\<open>maxAttempts = 3\<close> and \<^verbatim>\<open>navigationTimeout = 30000\<close>. It leaves by the
  \<^verbatim>\<open>break\<close> or the loop condition (\<open>LoopDone\<close>, with the value of \<^verbatim>\<open>response\<close>),
  or by the \<^verbatim>\<open>return\<close> in the \<^verbatim>\<open>catch\<close> once the attempts are used up (\<open>GaveUp\<close>).
\<close>

datatype nav_exit = LoopDone "response option" | GaveUp

function navigate :: "site \<Rightarrow> response option \<Rightarrow> nat \<Rightarrow> nav_exit \<times> event list" where
  "navigate s response attempts =
     (if response = None \<and> attempts < 3 then
        (case settled (goto s (attempts + 1)) of
           Some r \<Rightarrow> (LoopDone r, [Navigate (attempts + 1) 30000])
         | None \<Rightarrow>
             if attempts + 1 \<ge> 3 then (GaveUp, [Navigate (attempts + 1) 30000])
             else (case navigate s response (attempts + 1) of
                     (x, tr) \<Rightarrow> (x, Navigate (attempts + 1) 30000 # Sleep 2000 # tr)))
      else (LoopDone response, []))"
  by pat_completeness auto
termination
  by (relation "measure (\<lambda>(s, response, attempts). 3 - attempts)") auto

declare navigate.simps [simp del]

text \<open>\<^verbatim>\<open>!response || (response.status && response.status() !== 200)\<close>\<close>

definition load_failed :: "response option \<Rightarrow> bool" where
  "load_failed response =
     (case response of
        None \<Rightarrow> True
      | Some (Response status) \<Rightarrow> (case status of None \<Rightarrow> False | Some code \<Rightarrow> code \<noteq> 200))"

text \<open>
  The \<^verbatim>\<open>try\<close> block of \<^verbatim>\<open>scrapeContent\<close>, which both copies share up to the
  extraction (\<open>extract\<close>, applied to the parsed and pruned document). It gives the
  block's completion (a returned object, or what was thrown), the calls made, and whether
  \<^verbatim>\<open>browser\<close> was assigned. The wait for a content selector swallows its own failure.
\<close>

definition try_block :: "(cheerio \<Rightarrow> scraped) \<Rightarrow> site \<Rightarrow> (js_error + scraped) \<times> event list \<times> bool" where
  "try_block extract s =
     (if \<not> launch_ok s then (Inl LaunchFailed, [Launch], False)
      else if \<not> page_ok s then (Inl PageFailed, [Launch, OpenPage], True)
      else
        (case navigate s None 0 of
           (GaveUp, tr) \<Rightarrow> (Inr no_content, [Launch, OpenPage] @ tr, True)
         | (LoopDone response, tr) \<Rightarrow>
             if load_failed response then (Inr no_content, [Launch, OpenPage] @ tr, True)
             else if \<not> content_ok s then
               (Inl ContentFailed, [Launch, OpenPage] @ tr @ [AwaitSelector 5000, ReadContent], True)
             else
               (Inr (extract (dom s)),
                [Launch, OpenPage] @ tr @ [AwaitSelector 5000, ReadContent], True)))"

text \<open>
  \<^verbatim>\<open>scrapeContent(url)\<close>: the homepage check, then the \<^verbatim>\<open>try\<close> block, whose
  \<^verbatim>\<open>catch\<close> returns the empty result, and the \<^verbatim>\<open>finally\<close>, which closes the
  browser when one was assigned. A rejection of \<^verbatim>\<open>browser.close()\<close> replaces the
  completion of the function. \<open>web url\<close> is the environment of the call: what the
  browser and the site at \<open>url\<close> do while the call runs. Within one run a URL has one
  environment.
\<close>

definition scrapeContent ::
  "(cheerio \<Rightarrow> scraped) \<Rightarrow> (jsstring \<Rightarrow> string option) \<Rightarrow> (jsstring \<Rightarrow> site) \<Rightarrow> jsstring
     \<Rightarrow> (js_error + scraped) \<times> event list" where
  "scrapeContent extract pathname web url =
     (case isHomepage pathname url of
        Inl error \<Rightarrow> (Inl error, [])
      | Inr True \<Rightarrow> (Inr no_content, [])
      | Inr False \<Rightarrow>
          (case try_block extract (web url) of
             (outcome, tr, browser) \<Rightarrow>
               (let completion = (case outcome of Inl error \<Rightarrow> no_content | Inr r \<Rightarrow> r) in
                if browser then
                  (if close_ok (web url) then Inr completion else Inl CloseFailed, tr @ [Close])
                else (Inr completion, tr))))"

text \<open>
  The extraction stage of the ES-module copy, with its floor of 100 code units on the
  cleaned text.
\<close>

definition extract_esm :: "cheerio \<Rightarrow> scraped" where
  "extract_esm q =
     (let publishedDate = extractPublicationDate_esm q;
          title = extractTitle q;
          cleanedText = cleanContent_esm (extractText_esm q)
      in if cleanedText = [] \<or> length cleanedText < 100 then no_content
         else \<lparr>content = cleanedText, publishedDate = publishedDate, pageTitle = Some title\<rparr>)"

text \<open>The extraction stage of the CommonJS copy; it has no floor.\<close>

definition extract_cjs :: "(jsstring \<Rightarrow> jsstring option) \<Rightarrow> cheerio \<Rightarrow> scraped" where
  "extract_cjs toISOString q =
     (let publishedDate = extractPublicationDate_cjs toISOString q;
          cleanText = cleanContent_cjs (extractText_cjs q)
      in \<lparr>content = cleanText, publishedDate = publishedDate, pageTitle = None\<rparr>)"

definition scrapeContent_esm ::
  "(jsstring \<Rightarrow> string option) \<Rightarrow> (jsstring \<Rightarrow> site) \<Rightarrow> jsstring \<Rightarrow> (js_error + scraped) \<times> event list" where
  "scrapeContent_esm pathname web url = scrapeContent extract_esm pathname web url"

definition scrapeContent_cjs ::
  "(jsstring \<Rightarrow> jsstring option) \<Rightarrow> (jsstring \<Rightarrow> string option) \<Rightarrow> (jsstring \<Rightarrow> site) \<Rightarrow> jsstring
     \<Rightarrow> (js_error + scraped) \<times> event list" where
  "scrapeContent_cjs toISOString pathname web url =
     scrapeContent (extract_cjs toISOString) pathname web url"

text \<open>
  Two notions for stating results. \<open>first_response s\<close> is the value of the first of the
  three navigation races that resolves, if any does; \<open>reaches_extraction s\<close> says that
  the \<^verbatim>\<open>try\<close> block gets as far as the extraction: the browser launches, the page is
  set up, a navigation resolves with a response that passes the validity check, and the
  markup is read.
\<close>

definition first_response :: "site \<Rightarrow> response option option" where
  "first_response s =
     (case settled (goto s 1) of
        Some r \<Rightarrow> Some r
      | None \<Rightarrow> (case settled (goto s 2) of Some r \<Rightarrow> Some r | None \<Rightarrow> settled (goto s 3)))"

definition reaches_extraction :: "site \<Rightarrow> bool" where
  "reaches_extraction s =
     (launch_ok s \<and> page_ok s
      \<and> (case first_response s of Some r \<Rightarrow> \<not> load_failed r | None \<Rightarrow> False)
      \<and> content_ok s)"

section \<open>The batch coordinator\<close>

text \<open>
  A search result, and what the coordinator returns for it. The CommonJS copy spreads
  the search result and adds \<^verbatim>\<open>content\<close> and \<^verbatim>\<open>publishedDate\<close>; the ES-module copy
  builds an object with \<^verbatim>\<open>title\<close>, \<^verbatim>\<open>url\<close>, \<^verbatim>\<open>content\<close> and \<^verbatim>\<open>publishedDate\<close>,
  so its \<open>date\<close> is absent (\<open>None\<close>).
\<close>

record candidate =
  url :: jsstring
  title :: jsstring
  date :: "jsstring option"

record article = candidate +
  content :: jsstring
  publishedDate :: "jsstring option"

text \<open>
  What the coordinator does, per search result in order: \<open>Skipped u\<close> is the
  \<^verbatim>\<open>continue\<close> of the CommonJS copy, \<open>Visit u tr\<close> a call of \<^verbatim>\<open>scrapeContent(u)\<close>
  that made the calls \<open>tr\<close>, \<open>Delay ms\<close> the awaited \<^verbatim>\<open>setTimeout\<close> at the end of an
  iteration of the ES-module copy.
\<close>

datatype step = Skipped jsstring | Visit jsstring "event list" | Delay nat

text \<open>
  The loop of the ES-module \<^verbatim>\<open>scrapeMultipleUrls\<close>; the arguments after the environment
  are \<^verbatim>\<open>scrapedResults\<close>, the steps so far and the search results still to process. An
  error thrown by \<^verbatim>\<open>scrapeContent\<close> is caught inside the iteration.
\<close>

fun batch_esm ::
  "(jsstring \<Rightarrow> string option) \<Rightarrow> (jsstring \<Rightarrow> site) \<Rightarrow> article list \<Rightarrow> step list \<Rightarrow> candidate list
     \<Rightarrow> article list \<times> step list" where
  "batch_esm pathname web scrapedResults steps [] = (scrapedResults, steps)"
| "batch_esm pathname web scrapedResults steps (result # rest) =
     (case scrapeContent_esm pathname web (url result) of
        (outcome, tr) \<Rightarrow>
          batch_esm pathname web
            (case outcome of
               Inr scrapedContent \<Rightarrow>
                 if scraped.content scrapedContent \<noteq> [] then
                   scrapedResults @
                     [\<lparr>url = url result, title = title result, date = None,
                       content = scraped.content scrapedContent,
                       publishedDate = js_or (scraped.publishedDate scrapedContent) (date result)\<rparr>]
                 else scrapedResults
             | Inl error \<Rightarrow> scrapedResults)
            (steps @ [Visit (url result) tr, Delay 1000])
            rest)"

definition scrapeMultipleUrls_esm ::
  "(jsstring \<Rightarrow> string option) \<Rightarrow> (jsstring \<Rightarrow> site) \<Rightarrow> candidate list \<Rightarrow> article list \<times> step list" where
  "scrapeMultipleUrls_esm pathname web searchResults = batch_esm pathname web [] [] searchResults"

text \<open>
  The loop of the CommonJS \<^verbatim>\<open>scrapeMultipleUrls\<close>: it asks \<^verbatim>\<open>isHomepage\<close> itself
  first, and has no delay.
\<close>

fun batch_cjs ::
  "(jsstring \<Rightarrow> jsstring option) \<Rightarrow> (jsstring \<Rightarrow> string option) \<Rightarrow> (jsstring \<Rightarrow> site) \<Rightarrow> article list
     \<Rightarrow> step list \<Rightarrow> candidate list \<Rightarrow> article list \<times> step list" where
  "batch_cjs toISOString pathname web results steps [] = (results, steps)"
| "batch_cjs toISOString pathname web results steps (result # rest) =
     (case isHomepage pathname (url result) of
        Inl error \<Rightarrow> batch_cjs toISOString pathname web results steps rest
      | Inr True \<Rightarrow>
          batch_cjs toISOString pathname web results (steps @ [Skipped (url result)]) rest
      | Inr False \<Rightarrow>
          (case scrapeContent_cjs toISOString pathname web (url result) of
             (outcome, tr) \<Rightarrow>
               batch_cjs toISOString pathname web
                 (case outcome of
                    Inr scrapedContent \<Rightarrow>
                      if scraped.content scrapedContent \<noteq> [] then
                        results @
                          [candidate.extend result
                             (article.fields (scraped.content scrapedContent)
                                (scraped.publishedDate scrapedContent))]
                      else results
                  | Inl error \<Rightarrow> results)
                 (steps @ [Visit (url result) tr])
                 rest))"

definition scrapeMultipleUrls_cjs ::
  "(jsstring \<Rightarrow> jsstring option) \<Rightarrow> (jsstring \<Rightarrow> string option) \<Rightarrow> (jsstring \<Rightarrow> site) \<Rightarrow> candidate list
     \<Rightarrow> article list \<times> step list" where
  "scrapeMultipleUrls_cjs toISOString pathname web searchResults =
     batch_cjs toISOString pathname web [] [] searchResults"

text \<open>
  Notions for stating results. A search result \<open>succeeds\<close> when \<^verbatim>\<open>scrapeContent\<close> returns
  for its URL, with content that is not empty; \<open>emitted_esm\<close> and \<open>emitted_cjs\<close> are the
  objects the two copies push for a search result that succeeds, written from the
  document the site serves.
\<close>

definition succeeds ::
  "(cheerio \<Rightarrow> scraped) \<Rightarrow> (jsstring \<Rightarrow> string option) \<Rightarrow> (jsstring \<Rightarrow> site) \<Rightarrow> candidate \<Rightarrow> bool" where
  "succeeds stage pathname web r =
     (case fst (scrapeContent stage pathname web (url r)) of
        Inr scrapedContent \<Rightarrow> scraped.content scrapedContent \<noteq> []
      | Inl error \<Rightarrow> False)"

definition emitted_esm :: "(jsstring \<Rightarrow> site) \<Rightarrow> candidate \<Rightarrow> article" where
  "emitted_esm web r =
     \<lparr>url = url r, title = title r, date = None,
      content = cleanContent_esm (extractText_esm (site.dom (web (url r)))),
      publishedDate = js_or (extractPublicationDate_esm (site.dom (web (url r)))) (date r)\<rparr>"

definition emitted_cjs :: "(jsstring \<Rightarrow> jsstring option) \<Rightarrow> (jsstring \<Rightarrow> site) \<Rightarrow> candidate \<Rightarrow> article" where
  "emitted_cjs toISOString web r =
     candidate.extend r
       (article.fields (cleanContent_cjs (extractText_cjs (site.dom (web (url r)))))
          (extractPublicationDate_cjs toISOString (site.dom (web (url r)))))"

section \<open>Example inputs\<close>

text \<open>A URL parser that knows five URLs; every other string fails to parse.\<close>

definition example_pathname :: "jsstring \<Rightarrow> string option" where
  "example_pathname u =
     (if u = js ''https://example.com/Privacy/'' then Some ''/Privacy/''
      else if u = js ''https://example.com/2025/06/19/article-slug/'' then Some ''/2025/06/19/article-slug/''
      else if u = js ''https://example.com/'' then Some ''/''
      else if u = js ''https://example.com/news/edtech'' then Some ''/news/edtech''
      else if u = js ''https://example.org/news/edtech'' then Some ''/news/edtech''
      else None)"

text \<open>
  A runtime date parser that knows one date: \<^verbatim>\<open>new Date("2025-06-19T10:00:00Z")\<close> prints
  as \<^verbatim>\<open>2025-06-19T10:00:00.000Z\<close>; every other string is an invalid date.
\<close>

definition example_toISOString :: "jsstring \<Rightarrow> jsstring option" where
  "example_toISOString s =
     (if s = js ''2025-06-19T10:00:00Z'' then Some (js ''2025-06-19T10:00:00.000Z'') else None)"

text \<open>
  A document whose only date is
  \<^verbatim>\<open><meta name="publish_date" content="2025-06-19T10:00:00Z">\<close>.
\<close>

definition publish_date_doc :: cheerio where
  "publish_date_doc selector =
     (if selector = ''meta[name=\"publish_date\"]'' then
        [\<lparr>el_text = [], el_bare = [],
          el_attrs = [(''name'', js ''publish_date''), (''content'', js ''2025-06-19T10:00:00Z'')]\<rparr>]
      else [])"

text \<open>
  A document whose only date is
  \<^verbatim>\<open><meta property="article:published_time" content="2025-06-19T10:00:00Z">\<close>.
\<close>

definition published_time_doc :: cheerio where
  "published_time_doc selector =
     (if selector = ''meta[property=\"article:published_time\"]'' then
        [\<lparr>el_text = [], el_bare = [],
          el_attrs = [(''property'', js ''article:published_time''),
                      (''content'', js ''2025-06-19T10:00:00Z'')]\<rparr>]
      else [])"

text \<open>
  The document \<^verbatim>\<open><body><article>a...a</article><p>b...b</p></body>\<close> with 250 letters in
  the article and 50 in the paragraph, and no title or heading.
\<close>

definition container_doc :: cheerio where
  "container_doc selector =
     (if selector = ''article'' \<or> selector = ''article, section, main, .content, #content'' then
        [\<lparr>el_text = replicate 250 0x61, el_bare = replicate 250 0x61, el_attrs = []\<rparr>]
      else if selector = ''p'' then
        [\<lparr>el_text = replicate 50 0x62, el_bare = replicate 50 0x62, el_attrs = []\<rparr>]
      else if selector = ''body'' then
        [\<lparr>el_text = replicate 250 0x61 @ replicate 50 0x62,
          el_bare = replicate 250 0x61, el_attrs = []\<rparr>]
      else [])"

text \<open>
  Sites. \<open>good_site q\<close> serves the document \<open>q\<close> with status 200 at the first
  navigation and every call succeeds; at \<open>timeout_site closes\<close> every navigation loses
  the race against the timer, and \<^verbatim>\<open>browser.close()\<close> resolves when \<open>closes\<close> holds and
  rejects otherwise.
\<close>

definition good_site :: "cheerio \<Rightarrow> site" where
  "good_site q =
     \<lparr>launch_ok = True, page_ok = True, goto = (\<lambda>n. Settled (Some (Response (Some 200)))),
      content_ok = True, dom = q, close_ok = True\<rparr>"

definition timeout_site :: "bool \<Rightarrow> site" where
  "timeout_site closes =
     \<lparr>launch_ok = True, page_ok = True, goto = (\<lambda>n. TimerWon),
      content_ok = True, dom = (\<lambda>selector. []), close_ok = closes\<rparr>"

definition stuck_web :: "jsstring \<Rightarrow> site" where
  "stuck_web u = timeout_site False"

definition slow_web :: "jsstring \<Rightarrow> site" where
  "slow_web u = timeout_site True"

definition article_web :: "jsstring \<Rightarrow> site" where
  "article_web u = good_site container_doc"

text \<open>
  The document \<^verbatim>\<open><head><title>t</title></head><body><p>b...b</p></body>\<close> with 60
  letters in the paragraph, and a web that serves it everywhere.
\<close>

definition titled_doc :: "jsstring \<Rightarrow> cheerio" where
  "titled_doc t selector =
     (if selector = ''title'' then [\<lparr>el_text = t, el_bare = t, el_attrs = []\<rparr>]
      else if selector = ''p'' \<or> selector = ''body'' then
        [\<lparr>el_text = replicate 60 0x62, el_bare = replicate 60 0x62, el_attrs = []\<rparr>]
      else [])"

definition titled_web :: "jsstring \<Rightarrow> jsstring \<Rightarrow> site" where
  "titled_web t u = good_site (titled_doc t)"

definition news_url :: jsstring where
  "news_url = js ''https://example.com/news/edtech''"

text \<open>
  Five search results: the root page and a privacy page, which are skipped, an article
  whose navigation always times out, and two articles that load. \<open>five_web\<close> is the web
  they live on.
\<close>

definition root_url :: jsstring where
  "root_url = js ''https://example.com/''"

definition privacy_url :: jsstring where
  "privacy_url = js ''https://example.com/Privacy/''"

definition slug_url :: jsstring where
  "slug_url = js ''https://example.com/2025/06/19/article-slug/''"

definition other_url :: jsstring where
  "other_url = js ''https://example.org/news/edtech''"

definition five_candidates :: "candidate list" where
  "five_candidates =
     [\<lparr>url = root_url, title = js ''Home'', date = None\<rparr>,
      \<lparr>url = news_url, title = js ''EdTech'', date = None\<rparr>,
      \<lparr>url = privacy_url, title = js ''Privacy'', date = None\<rparr>,
      \<lparr>url = slug_url, title = js ''Slug'', date = None\<rparr>,
      \<lparr>url = other_url, title = js ''Other'', date = None\<rparr>]"

definition five_web :: "jsstring \<Rightarrow> site" where
  "five_web u = (if u = slug_url then timeout_site True else good_site container_doc)"

definition two_candidates :: "candidate list" where
  "two_candidates =
     [\<lparr>url = news_url, title = js ''EdTech'', date = None\<rparr>,
      \<lparr>url = other_url, title = js ''Other'', date = None\<rparr>]"

text \<open>The document \<^verbatim>\<open><body>hello</body>\<close>, and a web that serves it everywhere.\<close>

definition hello_doc :: cheerio where
  "hello_doc selector =
     (if selector = ''body'' then
        [\<lparr>el_text = js ''hello'', el_bare = js ''hello'', el_attrs = []\<rparr>]
      else [])"

definition hello_web :: "jsstring \<Rightarrow> site" where
  "hello_web u = good_site hello_doc"

definition hello_candidates :: "candidate list" where
  "hello_candidates = [\<lparr>url = news_url, title = js ''Hello'', date = None\<rparr>]"

section \<open>Properties of the text normaliser\<close>

lemma is_ws_sp [simp]: "is_ws sp"
  by (simp add: is_ws_def sp_def)

lemma is_ws_breaks [simp]: "is_ws 0xA" "is_ws 0xD" "is_ws 0x9" "is_ws 0xA0"
  by (simp_all add: is_ws_def)

lemma sp_neq [simp]: "sp \<noteq> 0xA" "sp \<noteq> 0xD" "sp \<noteq> 0x9" "sp \<noteq> 0xA0"
  by (simp_all add: sp_def)

lemma replace_runs_hd: "replace_runs P s \<noteq> [] \<Longrightarrow> \<not> P (hd s) \<Longrightarrow> hd (replace_runs P s) = hd s"
  by (cases s) auto

lemma replace_runs_Nil [simp]: "replace_runs P s = [] \<longleftrightarrow> s = []"
  by (cases s) auto

lemma tidy_Cons: "tidy (c # s) = ((if is_ws c then c = sp \<and> (s = [] \<or> \<not> is_ws (hd s)) else True) \<and> tidy s)"
  by (cases s) auto

lemma hd_dropWhile': "dropWhile P s \<noteq> [] \<Longrightarrow> \<not> P (hd (dropWhile P s))"
  by (simp add: hd_dropWhile)

lemma tidy_replace_runs: "tidy (replace_runs is_ws s)"
proof (induction is_ws s rule: replace_runs.induct)
  case 1
  show ?case by simp
next
  case (2 c cs)
  show ?case
  proof (cases "is_ws c")
    case True
    have "dropWhile is_ws cs \<noteq> [] \<Longrightarrow> \<not> is_ws (hd (replace_runs is_ws (dropWhile is_ws cs)))"
      using replace_runs_hd[of is_ws "dropWhile is_ws cs"] hd_dropWhile'[of is_ws cs] by simp
    with True 2 show ?thesis by (auto simp: tidy_Cons)
  next
    case False
    with 2 show ?thesis by (simp add: tidy_Cons)
  qed
qed

lemma tidy_ws: "tidy s \<Longrightarrow> c \<in> set s \<Longrightarrow> is_ws c \<Longrightarrow> c = sp"
  by (induction s) (auto simp: tidy_Cons split: if_splits)

lemma replace_runs_tidy: "tidy s \<Longrightarrow> replace_runs is_ws s = s"
proof (induction s)
  case Nil
  show ?case by simp
next
  case (Cons c s)
  then show ?case by (cases s) (auto simp: tidy_Cons split: if_splits)
qed

lemma replace_runs_none: "\<forall>c\<in>set s. \<not> P c \<Longrightarrow> replace_runs P s = s"
  by (induction s) auto

lemma tidy_dropWhile: "tidy s \<Longrightarrow> tidy (dropWhile P s)"
  by (induction s) (auto simp: tidy_Cons split: if_splits)

lemma trimEnd_Nil [simp]: "trimEnd [] = []"
  by (simp add: trimEnd_def)

lemma trimEnd_Cons: "trimEnd (c # s) = (if \<forall>x\<in>set (c # s). is_ws x then [] else c # trimEnd s)"
  by (auto simp: trimEnd_def dropWhile_append)

lemma hd_trimEnd: "trimEnd s \<noteq> [] \<Longrightarrow> hd (trimEnd s) = hd s"
  by (cases s) (auto simp: trimEnd_Cons split: if_splits)

lemma tidy_trimEnd: "tidy s \<Longrightarrow> tidy (trimEnd s)"
proof (induction s)
  case Nil
  show ?case by simp
next
  case (Cons c s)
  then show ?case
    using hd_trimEnd[of s] by (auto simp: tidy_Cons trimEnd_Cons split: if_splits)
qed

lemma tidy_trim: "tidy s \<Longrightarrow> tidy (trim s)"
  by (simp add: trim_def tidy_dropWhile tidy_trimEnd)

lemma trimEnd_eq_Nil: "trimEnd s = [] \<longleftrightarrow> (\<forall>x\<in>set s. is_ws x)"
  by (induction s) (auto simp: trimEnd_Cons)

lemma trimEnd_all_ws: "(\<forall>x\<in>set (trimEnd s). is_ws x) \<longleftrightarrow> (\<forall>x\<in>set s. is_ws x)"
  by (induction s) (auto simp: trimEnd_Cons trimEnd_eq_Nil)

lemma trimEnd_idem: "trimEnd (trimEnd s) = trimEnd s"
  by (induction s) (auto simp: trimEnd_Cons trimEnd_all_ws)

lemma trimEnd_last: "trimEnd s \<noteq> [] \<Longrightarrow> \<not> is_ws (last (trimEnd s))"
  by (induction s) (auto simp: trimEnd_Cons trimEnd_eq_Nil split: if_splits)

lemma trim_hd: "trim s \<noteq> [] \<Longrightarrow> \<not> is_ws (hd (trim s))"
  unfolding trim_def using hd_trimEnd[of "dropWhile is_ws s"] hd_dropWhile'[of is_ws s]
  by (cases "dropWhile is_ws s = []") auto

lemma trim_last: "trim s \<noteq> [] \<Longrightarrow> \<not> is_ws (last (trim s))"
  unfolding trim_def by (rule trimEnd_last)

lemma dropWhile_id: "s = [] \<or> \<not> P (hd s) \<Longrightarrow> dropWhile P s = s"
  by (cases s) auto

lemma trim_idem: "trim (trim s) = trim s"
proof -
  have "dropWhile is_ws (trim s) = trim s"
    using trim_hd[of s] by (intro dropWhile_id) auto
  then show ?thesis
    by (simp add: trim_def trimEnd_idem)
qed


lemma tokens_Nil [simp]: "tokens [] = []"
  by (simp add: tokens.simps)

lemma tokens_ws: "is_ws c \<Longrightarrow> tokens (c # cs) = tokens (dropWhile is_ws cs)"
  by (subst tokens.simps, subst (2) tokens.simps) simp

lemma tokens_dropWhile: "tokens (dropWhile is_ws s) = tokens s"
  by (subst tokens.simps, subst (2) tokens.simps) simp

lemma tokens_ws_Cons: "is_ws c \<Longrightarrow> tokens (c # cs) = tokens cs"
  by (simp only: tokens_ws tokens_dropWhile)

lemma tokens_nonws:
  "\<not> is_ws c \<Longrightarrow>
   tokens (c # cs) = (c # takeWhile (\<lambda>x. \<not> is_ws x) cs) # tokens (dropWhile (\<lambda>x. \<not> is_ws x) cs)"
  by (subst tokens.simps) simp

lemma tokens_eq_Nil: "tokens s = [] \<longleftrightarrow> (\<forall>x\<in>set s. is_ws x)"
proof (induction s)
  case Nil
  show ?case by simp
next
  case (Cons c s)
  show ?case
  proof (cases "is_ws c")
    case True
    with Cons show ?thesis by (simp add: tokens_ws_Cons)
  next
    case False
    then show ?thesis by (auto simp: tokens_nonws)
  qed
qed

lemma unwords_Cons_Cons: "join_sp ((c # w) # ws) = c # join_sp (w # ws)"
  by (cases ws) auto

lemma unwords_single_Cons: "join_sp ([c] # ws) = (if ws = [] then [c] else c # sp # join_sp ws)"
  by (cases ws) auto

lemma replace_runs_hd_nonws:
  "s \<noteq> [] \<Longrightarrow> \<not> is_ws (hd s) \<Longrightarrow> \<not> is_ws (hd (replace_runs is_ws s))"
  by (cases s) auto

lemma dropWhile_replace_runs_id:
  "s = [] \<or> \<not> is_ws (hd s) \<Longrightarrow> dropWhile is_ws (replace_runs is_ws s) = replace_runs is_ws s"
  by (cases s) auto

lemma trimEnd_replace_runs:
  "trimEnd (replace_runs is_ws s) =
     (if s \<noteq> [] \<and> is_ws (hd s) \<and> tokens s \<noteq> [] then sp # join_sp (tokens s)
      else join_sp (tokens s))"
proof (induction is_ws s rule: replace_runs.induct)
  case 1
  show ?case by simp
next
  case (2 c cs)
  show ?case
  proof (cases "is_ws c")
    case True
    define d where "d = dropWhile is_ws cs"
    have hd: "d \<noteq> [] \<Longrightarrow> \<not> is_ws (hd d)"
      unfolding d_def by (rule hd_dropWhile')
    have ih: "trimEnd (replace_runs is_ws d) = join_sp (tokens d)"
      using 2(1)[OF True, folded d_def] hd by auto
    have tk: "tokens (c # cs) = tokens d"
      using True by (simp add: tokens_ws d_def)
    have rr: "replace_runs is_ws (c # cs) = sp # replace_runs is_ws d"
      using True by (simp add: d_def)
    have "(\<forall>x\<in>set (replace_runs is_ws d). is_ws x) \<longleftrightarrow> tokens d = []"
    proof
      assume a: "\<forall>x\<in>set (replace_runs is_ws d). is_ws x"
      have "d = []"
      proof (rule ccontr)
        assume n: "d \<noteq> []"
        then have "\<not> is_ws (hd (replace_runs is_ws d))"
          using hd by (intro replace_runs_hd_nonws)
        moreover have "hd (replace_runs is_ws d) \<in> set (replace_runs is_ws d)"
          using n by simp
        ultimately show False using a by blast
      qed
      then show "tokens d = []" by simp
    next
      assume "tokens d = []"
      then have "\<forall>x\<in>set d. is_ws x" by (simp only: tokens_eq_Nil)
      then have "d = []" using hd by (cases d) auto
      then show "\<forall>x\<in>set (replace_runs is_ws d). is_ws x" by simp
    qed
    then show ?thesis
      using True ih by (simp add: trimEnd_Cons rr tk del: replace_runs.simps)
  next
    case False
    note ih = 2(2)[OF False]
    show ?thesis
    proof (cases cs)
      case Nil
      with False show ?thesis by (simp add: trimEnd_Cons tokens_nonws)
    next
      case (Cons d ds)
      show ?thesis
      proof (cases "is_ws d")
        case True
        then show ?thesis
          using False ih Cons
          by (simp add: trimEnd_Cons tokens_nonws unwords_single_Cons)
      next
        case nd: False
        then show ?thesis
          using False ih Cons
          by (simp add: trimEnd_Cons tokens_nonws unwords_Cons_Cons)
      qed
    qed
  qed
qed

lemma trim_replace_runs: "trim (replace_runs is_ws s) = join_sp (tokens s)"
proof (cases "s \<noteq> [] \<and> is_ws (hd s)")
  case True
  then obtain c cs where s: "s = c # cs" and c: "is_ws c"
    by (cases s) auto
  define d where "d = dropWhile is_ws cs"
  have hd: "d = [] \<or> \<not> is_ws (hd d)"
    unfolding d_def using hd_dropWhile'[of is_ws cs] by blast
  have rr: "replace_runs is_ws s = sp # replace_runs is_ws d"
    using s c by (simp add: d_def)
  have "dropWhile is_ws (replace_runs is_ws d) = replace_runs is_ws d"
    using hd by (rule dropWhile_replace_runs_id)
  then have "trim (replace_runs is_ws s) = trimEnd (replace_runs is_ws d)"
    by (simp add: trim_def rr)
  also have "\<dots> = join_sp (tokens d)"
    using hd by (cases "d = []") (simp_all add: trimEnd_replace_runs)
  also have "tokens d = tokens s"
    using s c by (simp add: tokens_ws d_def)
  finally show ?thesis .
next
  case False
  then have f: "s = [] \<or> \<not> is_ws (hd s)"
    by blast
  then have "dropWhile is_ws (replace_runs is_ws s) = replace_runs is_ws s"
    by (rule dropWhile_replace_runs_id)
  then have "trim (replace_runs is_ws s) = trimEnd (replace_runs is_ws s)"
    by (simp add: trim_def)
  also have "\<dots> = join_sp (tokens s)"
    using f by (cases "s = []") (simp_all add: trimEnd_replace_runs)
  finally show ?thesis .
qed

lemma tidy_no_other_ws: "tidy s \<Longrightarrow> x \<noteq> sp \<Longrightarrow> is_ws x \<Longrightarrow> x \<notin> set s"
  using tidy_ws by blast

lemma cleanContent_esm_eq: "cleanContent_esm s = trim (replace_runs is_ws s)"
proof -
  let ?r = "replace_runs is_ws s"
  have t: "tidy ?r" by (rule tidy_replace_runs)
  have a: "(0xA :: 16 word) \<notin> set ?r"
    by (rule tidy_no_other_ws[OF t]) simp_all
  have b: "(0x9 :: 16 word) \<notin> set ?r"
    by (rule tidy_no_other_ws[OF t]) simp_all
  have 1: "replace_runs (\<lambda>c. c = 0xA) ?r = ?r"
    using a by (intro replace_runs_none) auto
  have 2: "replace_runs (\<lambda>c. c = 0x9) ?r = ?r"
    using b by (intro replace_runs_none) auto
  show ?thesis
    by (cases "s = []") (simp_all add: cleanContent_esm_def 1 2 trim_def)
qed

lemma replace_each_none: "x \<notin> set s \<Longrightarrow> replace_each x s = s"
  by (induction s) (auto simp: replace_each_def)

lemma cleanContent_cjs_eq: "cleanContent_cjs s = trim (replace_runs is_ws (replace_linebreaks s))"
proof -
  let ?r = "replace_runs is_ws (replace_linebreaks s)"
  have t: "tidy ?r" by (rule tidy_replace_runs)
  have "(0xA0 :: 16 word) \<notin> set ?r"
    by (rule tidy_no_other_ws[OF t]) simp_all
  then show ?thesis
    by (simp add: cleanContent_cjs_def replace_each_none)
qed

lemma dropWhile_replace_linebreaks:
  "dropWhile is_ws (replace_linebreaks s) = replace_linebreaks (dropWhile is_ws s)"
  by (induction s rule: replace_linebreaks.induct) auto

lemma replace_runs_linebreaks: "replace_runs is_ws (replace_linebreaks s) = replace_runs is_ws s"
proof (induction "length s" arbitrary: s rule: less_induct)
  case less
  show ?case
  proof (cases s rule: replace_linebreaks.cases)
    case 1
    then show ?thesis by simp
  next
    case (2 c)
    then show ?thesis by auto
  next
    case (3 c d ds)
    have l1: "length (dropWhile is_ws ds) < length s"
      using 3 length_dropWhile_le[of is_ws ds] by simp
    have l2: "length (dropWhile is_ws (d # ds)) < length s"
      using 3 length_dropWhile_le[of is_ws "d # ds"] by simp
    have l3: "length (d # ds) < length s"
      using 3 by simp
    have ws: "is_ws c" if "c = 0xA \<or> c = 0xD"
      using that by auto
    show ?thesis
    proof (cases "c = 0xD \<and> d = 0xA")
      case True
      then show ?thesis
        using 3 less[OF l1] by (simp add: dropWhile_replace_linebreaks)
    next
      case False
      show ?thesis
      proof (cases "c = 0xA \<or> c = 0xD")
        case True
        have "replace_linebreaks s = sp # replace_linebreaks (d # ds)"
          using 3 False True by auto
        then have "replace_runs is_ws (replace_linebreaks s)
                = sp # replace_runs is_ws (dropWhile is_ws (replace_linebreaks (d # ds)))"
          by simp
        also have "\<dots> = sp # replace_runs is_ws (replace_linebreaks (dropWhile is_ws (d # ds)))"
          by (simp only: dropWhile_replace_linebreaks)
        also have "\<dots> = sp # replace_runs is_ws (dropWhile is_ws (d # ds))"
          using less[OF l2] by simp
        also have "\<dots> = replace_runs is_ws s"
          using 3 ws[OF True] by simp
        finally show ?thesis .
      next
        case nb: False
        show ?thesis
        proof (cases "is_ws c")
          case True
          have "replace_runs is_ws (replace_linebreaks s)
                  = sp # replace_runs is_ws (dropWhile is_ws (replace_linebreaks (d # ds)))"
            using 3 nb True by simp
          also have "\<dots> = sp # replace_runs is_ws (replace_linebreaks (dropWhile is_ws (d # ds)))"
            by (simp only: dropWhile_replace_linebreaks)
          also have "\<dots> = sp # replace_runs is_ws (dropWhile is_ws (d # ds))"
            using less[OF l2] by simp
          also have "\<dots> = replace_runs is_ws s"
            using 3 True by simp
          finally show ?thesis .
        next
          case False
          then show ?thesis
            using 3 nb less[OF l3] by simp
        qed
      qed
    qed
  qed
qed

lemma cleanContent_esm_spec: "cleanContent_esm s = normalize_spec s"
  by (simp add: cleanContent_esm_eq trim_replace_runs normalize_spec_def)

lemma cleanContent_cjs_spec: "cleanContent_cjs s = normalize_spec s"
  by (simp add: cleanContent_cjs_eq replace_runs_linebreaks trim_replace_runs normalize_spec_def)

lemma normalize_spec_idem: "normalize_spec (normalize_spec s) = normalize_spec s"
proof -
  let ?r = "trim (replace_runs is_ws s)"
  have "tidy ?r"
    by (simp add: tidy_trim tidy_replace_runs)
  then have "replace_runs is_ws ?r = ?r"
    by (rule replace_runs_tidy)
  then have "trim (replace_runs is_ws ?r) = ?r"
    by (simp add: trim_idem)
  then show ?thesis
    by (simp add: normalize_spec_def trim_replace_runs[symmetric])
qed

lemma tidy_normalize_spec: "tidy (normalize_spec s)"
  by (simp add: normalize_spec_def trim_replace_runs[symmetric] tidy_trim tidy_replace_runs)

lemma trim_normalize_spec: "trim (normalize_spec s) = normalize_spec s"
  by (simp add: normalize_spec_def trim_replace_runs[symmetric] trim_idem)

section \<open>Properties of the classifier\<close>

lemma list_ex_Dir:
  "list_ex (\<lambda>p. pattern_test p path) (map Dir names) =
     (\<exists>name\<in>set names. map lower path = ''/'' @ name \<or> map lower path = ''/'' @ name @ ''/'')"
  by (induction names) auto

lemma article_path_lower: "map lower ''/2025/06/19/article-slug/'' = ''/2025/06/19/article-slug/''"
  by (simp add: lower_def)

lemma not_homepage:
  assumes "pathname u = Some p" and "map lower p = ''/2025/06/19/article-slug/''"
  shows "isHomepage pathname u = Inr False"
proof -
  have "p \<noteq> []" "p \<noteq> ''/''"
    using assms(2) by auto
  then show ?thesis
    using assms
    by (simp add: isHomepage_def isHomepage_try_def homepagePatterns_def nonArticlePatterns_def
        boilerplate_def)
qed

lemma isHomepage_total: "\<exists>b. isHomepage pathname u = Inr b"
  by (cases "isHomepage_try pathname u") (auto simp: isHomepage_def)

section \<open>Properties of the extractors\<close>

lemma tokens_append_ws: "is_ws c \<Longrightarrow> tokens (a @ c # b) = tokens a @ tokens b"
proof (induction a rule: tokens.induct)
  case (1 s)
  show ?case
  proof (cases "dropWhile is_ws s")
    case Nil
    then have all: "\<forall>x\<in>set s. is_ws x"
      by (simp add: dropWhile_eq_Nil_conv)
    then have "tokens s = []"
      by (simp add: tokens_eq_Nil)
    moreover have "dropWhile is_ws (s @ c # b) = dropWhile is_ws (c # b)"
      using all by (simp add: dropWhile_append)
    then have "tokens (s @ c # b) = tokens (c # b)"
      by (metis tokens_dropWhile)
    ultimately show ?thesis
      using 1(2) by (simp add: tokens_ws_Cons)
  next
    case (Cons x xs)
    then have nx: "\<not> is_ws x"
      using hd_dropWhile'[of is_ws s] by auto
    have ex: "\<exists>y\<in>set s. \<not> is_ws y"
      using Cons by (metis dropWhile_eq_Nil_conv list.distinct(1))
    have ts: "tokens s = (x # takeWhile (\<lambda>x. \<not> is_ws x) xs) # tokens (dropWhile (\<lambda>x. \<not> is_ws x) xs)"
      using Cons by (subst tokens.simps) simp
    from ex obtain y where "y \<in> set s" "\<not> is_ws y"
      by blast
    then have "dropWhile is_ws (s @ c # b) = dropWhile is_ws s @ c # b"
      by (rule dropWhile_append1)
    then have dw: "dropWhile is_ws (s @ c # b) = x # (xs @ c # b)"
      using Cons by simp
    have tsb: "tokens (s @ c # b) =
        (x # takeWhile (\<lambda>x. \<not> is_ws x) (xs @ c # b)) # tokens (dropWhile (\<lambda>x. \<not> is_ws x) (xs @ c # b))"
      using dw by (subst tokens.simps) simp
    show ?thesis
    proof (cases "\<forall>y\<in>set xs. \<not> is_ws y")
      case True
      then have e: "takeWhile (\<lambda>x. \<not> is_ws x) (xs @ c # b) = xs"
        "dropWhile (\<lambda>x. \<not> is_ws x) (xs @ c # b) = c # b"
        "takeWhile (\<lambda>x. \<not> is_ws x) xs = xs"
        "dropWhile (\<lambda>x. \<not> is_ws x) xs = []"
        using 1(2) by (simp_all add: takeWhile_append dropWhile_append)
      show ?thesis
        by (simp only: ts tsb e tokens_ws_Cons[OF 1(2)] tokens_Nil append.simps)
    next
      case False
      then have "takeWhile (\<lambda>x. \<not> is_ws x) (xs @ c # b) = takeWhile (\<lambda>x. \<not> is_ws x) xs"
        and "dropWhile (\<lambda>x. \<not> is_ws x) (xs @ c # b) = dropWhile (\<lambda>x. \<not> is_ws x) xs @ c # b"
        by (auto simp: takeWhile_append dropWhile_append)
      then show ?thesis
        using ts tsb 1(1)[OF Cons 1(2)] by simp
    qed
  qed
qed

lemma tokens_word: "w \<noteq> [] \<Longrightarrow> \<forall>x\<in>set w. \<not> is_ws x \<Longrightarrow> tokens w = [w]"
proof (cases w)
  case Nil
  assume "w \<noteq> []"
  with Nil show ?thesis by simp
next
  case (Cons c cs)
  assume "\<forall>x\<in>set w. \<not> is_ws x"
  with Cons have c: "\<not> is_ws c" and cs: "\<forall>x\<in>set cs. \<not> is_ws x"
    by auto
  from cs have tw: "takeWhile (\<lambda>x. \<not> is_ws x) cs = cs"
    and dw: "dropWhile (\<lambda>x. \<not> is_ws x) cs = []"
    by (simp_all add: takeWhile_eq_all_conv)
  show ?thesis
    unfolding Cons by (simp only: tokens_nonws[OF c] tw dw tokens_Nil)
qed

lemma join_sp_Cons: "ys \<noteq> [] \<Longrightarrow> join_sp (w # ys) = w @ sp # join_sp ys"
  by (cases ys) auto

lemma join_sp_append:
  "join_sp (xs @ ys) =
     (if xs = [] then join_sp ys else if ys = [] then join_sp xs
      else join_sp xs @ sp # join_sp ys)"
  by (induction xs rule: join_sp.induct) (auto simp: join_sp_Cons)

lemma normalize_spec_append_ws:
  "is_ws c \<Longrightarrow>
   normalize_spec (a @ c # b) =
     (if tokens a = [] then normalize_spec b else if tokens b = [] then normalize_spec a
      else normalize_spec a @ sp # normalize_spec b)"
  by (simp add: normalize_spec_def tokens_append_ws join_sp_append)

lemma normalize_spec_prefix:
  "is_ws c \<Longrightarrow> take (length (normalize_spec a)) (normalize_spec (a @ c # b)) = normalize_spec a"
  by (simp add: normalize_spec_append_ws) (simp add: normalize_spec_def)

lemma normalize_spec_word: "w \<noteq> [] \<Longrightarrow> \<forall>x\<in>set w. \<not> is_ws x \<Longrightarrow> normalize_spec w = w"
  by (simp add: normalize_spec_def tokens_word)

lemma trimEnd_word: "\<forall>x\<in>set w. \<not> is_ws x \<Longrightarrow> trimEnd w = w"
  by (induction w) (auto simp: trimEnd_Cons)

lemma trim_word: "\<forall>x\<in>set w. \<not> is_ws x \<Longrightarrow> trim w = w"
  by (cases w) (simp_all add: trim_def trimEnd_word)

lemma normalize_spec_Nil [simp]: "normalize_spec [] = []"
  by (simp add: normalize_spec_def)

lemma normalize_spec_ws_Cons: "is_ws c \<Longrightarrow> normalize_spec (c # s) = normalize_spec s"
  by (simp add: normalize_spec_def tokens_ws_Cons)

lemma trim_ws_Cons: "is_ws c \<Longrightarrow> trim (c # s) = trim s"
  by (simp add: trim_def)

lemma trim_Nil [simp]: "trim [] = []"
  by (simp add: trim_def)

lemma sel_text_Nil [simp]: "sel_text [] = []"
  by (simp add: sel_text_def)

lemma attr_Nil [simp]: "attr [] name = None"
  by (simp add: attr_def)

lemma date_of_Nil: "\<not> truthy (date_of [])"
  by (simp add: date_of_def js_or_def truthy_def)

lemma probe_dates_find:
  "probe_dates q sels =
     (case find (\<lambda>sel. truthy (date_of (q sel))) sels of
        None \<Rightarrow> None
      | Some sel \<Rightarrow> map_option trim (date_of (q sel)))"
proof (induction sels)
  case Nil
  show ?case by simp
next
  case (Cons sel sels)
  show ?case
  proof (cases "q sel = []")
    case True
    with Cons date_of_Nil show ?thesis by simp
  next
    case False
    with Cons show ?thesis
      by (cases "date_of (q sel)") (auto simp: truthy_def)
  qed
qed

lemma find_container_find:
  "find_container q sels =
     (case find (\<lambda>sel. length (trim (sel_text (q sel))) > 200) sels of
        None \<Rightarrow> []
      | Some sel \<Rightarrow> trim (sel_text (q sel)))"
proof (induction sels)
  case Nil
  show ?case by simp
next
  case (Cons sel sels)
  show ?case
  proof (cases "q sel = []")
    case True
    with Cons show ?thesis by simp
  next
    case False
    with Cons show ?thesis by (simp add: Let_def)
  qed
qed

lemma find_unique:
  assumes "sel \<in> set sels" and "P sel" and "\<forall>s\<in>set sels. s \<noteq> sel \<longrightarrow> \<not> P s"
  shows "find P sels = Some sel"
  using assms by (induction sels) auto

lemma attr_take1: "attr (take (Suc 0) els) name = attr els name"
  by (cases els) (simp_all add: attr_def)

lemma extractPublicationDate_cjs_chain:
  "extractPublicationDate_cjs toISOString q =
     (case js_or (attr (q ''meta[property=\"article:published_time\"]'') ''content'')
             (js_or (attr (q ''meta[name=\"pubdate\"]'') ''content'')
               (js_or (attr (q ''meta[name=\"publication_date\"]'') ''content'')
                 (js_or (attr (q ''meta[name=\"date\"]'') ''content'')
                    (attr (q ''time[datetime]'') ''datetime'')))) of
        None \<Rightarrow> None
      | Some d \<Rightarrow> if d = [] then None else map_option (takeWhile (\<lambda>c. c \<noteq> 0x54)) (toISOString d))"
proof -
  define m where "m = js_or (attr (q ''meta[property=\"article:published_time\"]'') ''content'')
             (js_or (attr (q ''meta[name=\"pubdate\"]'') ''content'')
               (js_or (attr (q ''meta[name=\"publication_date\"]'') ''content'')
                 (attr (q ''meta[name=\"date\"]'') ''content'')))"
  define t where "t = attr (q ''time[datetime]'') ''datetime''"
  have assoc: "js_or (attr (q ''meta[property=\"article:published_time\"]'') ''content'')
             (js_or (attr (q ''meta[name=\"pubdate\"]'') ''content'')
               (js_or (attr (q ''meta[name=\"publication_date\"]'') ''content'')
                 (js_or (attr (q ''meta[name=\"date\"]'') ''content'') t))) = js_or m t"
    by (simp add: m_def js_or_def)
  have "extractPublicationDate_cjs toISOString q =
     (case (if \<not> truthy m then (if q ''time[datetime]'' \<noteq> [] then t else m) else m) of
        None \<Rightarrow> None
      | Some d \<Rightarrow> if d \<noteq> [] then
             (case toISOString d of Some stamp \<Rightarrow> Some (takeWhile (\<lambda>c. c \<noteq> 0x54) stamp) | None \<Rightarrow> None)
           else None)"
    by (simp add: extractPublicationDate_cjs_def Let_def m_def[symmetric] t_def attr_take1)
  also have "\<dots> = (case js_or m t of
        None \<Rightarrow> None
      | Some d \<Rightarrow> if d = [] then None else map_option (takeWhile (\<lambda>c. c \<noteq> 0x54)) (toISOString d))"
  proof (cases "q ''time[datetime]'' = []")
    case True
    then have "t = None" by (simp add: t_def)
    then show ?thesis
      by (cases m) (auto simp: js_or_def truthy_def split: option.splits)
  next
    case False
    then show ?thesis
      by (cases m; cases t) (auto simp: js_or_def truthy_def split: option.splits)
  qed
  finally have r: "extractPublicationDate_cjs toISOString q =
      (case js_or m t of
        None \<Rightarrow> None
      | Some d \<Rightarrow> if d = [] then None else map_option (takeWhile (\<lambda>c. c \<noteq> 0x54)) (toISOString d))" .
  show ?thesis
    unfolding assoc[unfolded t_def] by (rule r[unfolded t_def])
qed

lemma example_date_no_ws: "\<forall>x\<in>set (js ''2025-06-19T10:00:00Z''). \<not> is_ws x"
  by (simp add: js_def is_ws_def)

lemma trim_example_date: "trim (js ''2025-06-19T10:00:00Z'') = js ''2025-06-19T10:00:00Z''"
  using example_date_no_ws by (rule trim_word)

lemma date_part_example:
  "takeWhile (\<lambda>c. c \<noteq> 0x54) (js ''2025-06-19T10:00:00.000Z'') = js ''2025-06-19''"
  by (simp add: js_def)

lemma trim_id: "s \<noteq> [] \<Longrightarrow> \<not> is_ws (hd s) \<Longrightarrow> \<not> is_ws (last s) \<Longrightarrow> trim s = s"
proof -
  assume s: "s \<noteq> []" and h: "\<not> is_ws (hd s)" and l: "\<not> is_ws (last s)"
  have "dropWhile is_ws (rev s) = rev s"
    using s l by (intro dropWhile_id) (simp add: hd_rev)
  moreover have "dropWhile is_ws s = s"
    using h by (intro dropWhile_id) simp
  ultimately show ?thesis
    by (simp add: trim_def trimEnd_def)
qed

lemma extractText_esm_find:
  "extractText_esm q =
     (case find (\<lambda>sel. 200 < length (trim (sel_text (q sel)))) contentSelectors of
        Some sel \<Rightarrow> trim (sel_text (q sel))
      | None \<Rightarrow>
          if length (trim (join_sp (map (\<lambda>el. trim (el_text el)) (q ''p'')))) < 100
          then trim (sel_text (q ''body''))
          else trim (join_sp (map (\<lambda>el. trim (el_text el)) (q ''p''))))"
proof (cases "find (\<lambda>sel. 200 < length (trim (sel_text (q sel)))) contentSelectors")
  case None
  then have "find_container q contentSelectors = []"
    by (simp add: find_container_find)
  then show ?thesis
    using None by (auto simp: extractText_esm_def Let_def)
next
  case (Some sel)
  then have l: "200 < length (trim (sel_text (q sel)))"
    by (auto simp: find_Some_iff)
  have "find_container q contentSelectors = trim (sel_text (q sel))"
    using Some by (simp add: find_container_find)
  then show ?thesis
    using Some l by (auto simp: extractText_esm_def Let_def)
qed

lemma container_doc_article: "sel_text (container_doc ''article'') = replicate 250 0x61"
  by (simp add: container_doc_def sel_text_def)

lemma trim_replicate: "\<not> is_ws c \<Longrightarrow> trim (replicate n c) = replicate n c"
  by (rule trim_word) simp

lemma not_ws_letters [simp]: "\<not> is_ws 0x61" "\<not> is_ws 0x62"
  by (simp_all add: is_ws_def)

lemma find_main_Some:
  "find (\<lambda>sel. 500 < length (trim (sel_text (q sel)))) sels = Some sel \<Longrightarrow>
   find_main q m sels = trim (sel_text (q sel))"
proof (induction sels arbitrary: m)
  case Nil
  then show ?case by simp
next
  case (Cons s sels)
  show ?case
  proof (cases "500 < length (trim (sel_text (q s)))")
    case True
    then have "q s \<noteq> []"
      by auto
    with True Cons.prems show ?thesis
      by (simp add: Let_def)
  next
    case False
    with Cons.prems have "find (\<lambda>sel. 500 < length (trim (sel_text (q sel)))) sels = Some sel"
      by simp
    then have "find_main q m' sels = trim (sel_text (q sel))" for m'
      by (rule Cons.IH)
    with False show ?thesis
      by (simp add: Let_def)
  qed
qed

lemma find_main_None:
  "find (\<lambda>sel. 500 < length (trim (sel_text (q sel)))) sels = None \<Longrightarrow>
   length m \<le> 500 \<Longrightarrow> length (find_main q m sels) \<le> 500"
proof (induction sels arbitrary: m)
  case Nil
  then show ?case by simp
next
  case (Cons s sels)
  from Cons.prems(1) have s: "\<not> 500 < length (trim (sel_text (q s)))"
    and r: "find (\<lambda>sel. 500 < length (trim (sel_text (q sel)))) sels = None"
    by (simp_all split: if_splits)
  from s have "length (trim (sel_text (q s))) \<le> 500"
    by simp
  then show ?case
    using s Cons.IH[OF r] Cons.prems(2) by (simp add: Let_def)
qed

lemma composeText_cjs_find:
  "composeText_cjs q =
     (case find (\<lambda>sel. 500 < length (trim (sel_text (q sel)))) articleSelectors of
        Some sel \<Rightarrow> extractTitle q @ [sp] @ trim (sel_text (q sel))
      | None \<Rightarrow>
          extractTitle q @ [sp]
          @ join_sp (map (\<lambda>el. trim (el_text el)) (q ''h1, h2, h3, h4, h5, h6'')) @ [sp]
          @ join_sp (map (\<lambda>el. trim (el_text el)) (q ''p'')) @ [sp]
          @ join_sp (map (\<lambda>el. trim (el_text el)) (q ''li'')) @ [sp]
          @ join_sp (map (\<lambda>el. trim (el_bare el)) (q ''article, section, main, .content, #content'')))"
proof (cases "find (\<lambda>sel. 500 < length (trim (sel_text (q sel)))) articleSelectors")
  case None
  then have "length (find_main q [] articleSelectors) \<le> 500"
    by (rule find_main_None) simp
  then show ?thesis
    using None by (simp add: composeText_cjs_def Let_def)
next
  case (Some sel)
  then have l: "500 < length (trim (sel_text (q sel)))"
    by (auto simp: find_Some_iff)
  have "find_main q [] articleSelectors = trim (sel_text (q sel))"
    using Some by (rule find_main_Some)
  then show ?thesis
    using Some l by (simp add: composeText_cjs_def Let_def)
qed

lemma extractText_cjs_fallback:
  "extractText_cjs q =
     (if length (trim (composeText_cjs q)) < 50 then trim (sel_text (q ''body''))
      else composeText_cjs q)"
  by (auto simp: extractText_cjs_def bodyFallback_cjs_def)

section \<open>Properties of the fetch orchestrator\<close>

lemma navigate_step:
  "n < 3 \<Longrightarrow>
   navigate s None n =
     (case settled (goto s (n + 1)) of
        Some r \<Rightarrow> (LoopDone r, [Navigate (n + 1) 30000])
      | None \<Rightarrow>
          if n + 1 \<ge> 3 then (GaveUp, [Navigate (n + 1) 30000])
          else (case navigate s None (n + 1) of
                  (x, tr) \<Rightarrow> (x, Navigate (n + 1) 30000 # Sleep 2000 # tr)))"
  by (subst navigate.simps) simp

lemma navigate_2:
  "navigate s None 2 =
     (case settled (goto s 3) of
        Some r \<Rightarrow> (LoopDone r, [Navigate 3 30000])
      | None \<Rightarrow> (GaveUp, [Navigate 3 30000]))"
proof -
  have a: "(2::nat) + 1 = 3" by simp
  show ?thesis
    using navigate_step[of 2 s, unfolded a] by simp
qed

lemma navigate_1:
  "navigate s None 1 =
     (case settled (goto s 2) of
        Some r \<Rightarrow> (LoopDone r, [Navigate 2 30000])
      | None \<Rightarrow>
          (case settled (goto s 3) of
             Some r \<Rightarrow> (LoopDone r, [Navigate 2 30000, Sleep 2000, Navigate 3 30000])
           | None \<Rightarrow> (GaveUp, [Navigate 2 30000, Sleep 2000, Navigate 3 30000])))"
proof -
  have a: "(1::nat) + 1 = 2" by simp
  show ?thesis
    using navigate_step[of 1 s, unfolded a navigate_2] by (simp split: option.splits)
qed

lemma navigate_0:
  "navigate s None 0 =
     (case settled (goto s 1) of
        Some r \<Rightarrow> (LoopDone r, [Navigate 1 30000])
      | None \<Rightarrow>
          (case settled (goto s 2) of
             Some r \<Rightarrow> (LoopDone r, [Navigate 1 30000, Sleep 2000, Navigate 2 30000])
           | None \<Rightarrow>
               (case settled (goto s 3) of
                  Some r \<Rightarrow>
                    (LoopDone r,
                     [Navigate 1 30000, Sleep 2000, Navigate 2 30000, Sleep 2000, Navigate 3 30000])
                | None \<Rightarrow>
                    (GaveUp,
                     [Navigate 1 30000, Sleep 2000, Navigate 2 30000, Sleep 2000, Navigate 3 30000]))))"
proof -
  have a: "(0::nat) + 1 = 1" by simp
  show ?thesis
    using navigate_step[of 0 s, unfolded a navigate_1] by (simp split: option.splits)
qed

lemma navigate_exit:
  "fst (navigate s None 0) = (case first_response s of Some r \<Rightarrow> LoopDone r | None \<Rightarrow> GaveUp)"
  by (simp add: navigate_0 first_response_def split: option.splits)

lemma navigate_events:
  "e \<in> set (snd (navigate s None 0)) \<Longrightarrow>
     e \<in> {Navigate 1 30000, Navigate 2 30000, Navigate 3 30000, Sleep 2000}"
  by (auto simp: navigate_0 split: option.splits)

lemma navigate_once: "count_list (snd (navigate s None 0)) (Navigate n ms) \<le> 1"
  by (simp add: navigate_0 split: option.splits)

lemma navigate_gave_up:
  "settled (goto s 1) = None \<Longrightarrow> settled (goto s 2) = None \<Longrightarrow> settled (goto s 3) = None \<Longrightarrow>
   navigate s None 0 =
     (GaveUp, [Navigate 1 30000, Sleep 2000, Navigate 2 30000, Sleep 2000, Navigate 3 30000])"
  by (simp add: navigate_0)

lemma try_block_outcome:
  "fst (try_block stage s) =
     (if \<not> launch_ok s then Inl LaunchFailed
      else if \<not> page_ok s then Inl PageFailed
      else (case first_response s of
              None \<Rightarrow> Inr no_content
            | Some r \<Rightarrow>
                if load_failed r then Inr no_content
                else if \<not> content_ok s then Inl ContentFailed
                else Inr (stage (dom s))))"
proof -
  obtain x tr where n: "navigate s None 0 = (x, tr)"
    by (cases "navigate s None 0")
  have x: "x = (case first_response s of Some r \<Rightarrow> LoopDone r | None \<Rightarrow> GaveUp)"
    using navigate_exit[of s] n by simp
  show ?thesis
    by (simp add: try_block_def n x split: option.splits)
qed

lemma try_block_browser: "snd (snd (try_block stage s)) = launch_ok s"
proof -
  obtain x tr where n: "navigate s None 0 = (x, tr)"
    by (cases "navigate s None 0")
  show ?thesis
    by (cases x) (simp_all add: try_block_def n)
qed

lemma try_block_events:
  "\<exists>tr. fst (snd (try_block stage s)) = Launch # tr \<and> Close \<notin> set tr
      \<and> (\<forall>n ms. Navigate n ms \<in> set tr \<longrightarrow> 1 \<le> n \<and> n \<le> 3 \<and> ms = 30000)
      \<and> (\<forall>n ms. count_list tr (Navigate n ms) \<le> 1)
      \<and> (\<forall>ms. Sleep ms \<in> set tr \<longrightarrow> ms = 2000)"
proof -
  obtain x tr where n: "navigate s None 0 = (x, tr)"
    by (cases "navigate s None 0")
  have ev: "\<forall>e\<in>set tr. e \<in> {Navigate 1 30000, Navigate 2 30000, Navigate 3 30000, Sleep 2000}"
    using navigate_events[of _ s] n by simp
  have once: "\<forall>n ms. count_list tr (Navigate n ms) \<le> 1"
    using navigate_once[of s] n by simp
  have c: "Close \<notin> set tr"
    using ev by auto
  have nv: "\<forall>n ms. Navigate n ms \<in> set tr \<longrightarrow> 1 \<le> n \<and> n \<le> 3 \<and> ms = 30000"
    using ev by auto
  have sl: "\<forall>ms. Sleep ms \<in> set tr \<longrightarrow> ms = 2000"
    using ev by auto
  show ?thesis
    using c nv sl once by (cases x) (simp_all add: try_block_def n)
qed

lemma scrapeContent_outcome:
  "fst (scrapeContent stage pathname web u) =
     (if isHomepage pathname u = Inr True then Inr no_content
      else if launch_ok (web u) \<and> \<not> close_ok (web u) then Inl CloseFailed
      else if reaches_extraction (web u) then Inr (stage (dom (web u)))
      else Inr no_content)"
proof -
  obtain b where h: "isHomepage pathname u = Inr b"
    using isHomepage_total by blast
  obtain out tr br where t: "try_block stage (web u) = (out, tr, br)"
    by (cases "try_block stage (web u)")
  have out: "out = fst (try_block stage (web u))" and br: "br = launch_ok (web u)"
    using t try_block_browser[of stage "web u"] by simp_all
  show ?thesis
    by (cases b)
       (auto simp: scrapeContent_def h t br out[unfolded try_block_outcome] Let_def
          reaches_extraction_def split: option.splits)
qed

lemma scrapeContent_events:
  "snd (scrapeContent stage pathname web u) = [] \<and> isHomepage pathname u = Inr True
   \<or> isHomepage pathname u = Inr False
     \<and> (\<exists>tr. snd (scrapeContent stage pathname web u)
                = Launch # tr @ (if launch_ok (web u) then [Close] else [])
           \<and> Close \<notin> set tr
           \<and> (\<forall>n ms. Navigate n ms \<in> set tr \<longrightarrow> 1 \<le> n \<and> n \<le> 3 \<and> ms = 30000)
           \<and> (\<forall>n ms. count_list tr (Navigate n ms) \<le> 1)
           \<and> (\<forall>ms. Sleep ms \<in> set tr \<longrightarrow> ms = 2000))"
proof -
  obtain b where h: "isHomepage pathname u = Inr b"
    using isHomepage_total by blast
  obtain out tr br where t: "try_block stage (web u) = (out, tr, br)"
    by (cases "try_block stage (web u)")
  have br: "br = launch_ok (web u)"
    using t try_block_browser[of stage "web u"] by simp
  obtain tr' where tr: "tr = Launch # tr'" "Close \<notin> set tr'"
    "\<forall>n ms. Navigate n ms \<in> set tr' \<longrightarrow> 1 \<le> n \<and> n \<le> 3 \<and> ms = 30000"
    "\<forall>n ms. count_list tr' (Navigate n ms) \<le> 1"
    "\<forall>ms. Sleep ms \<in> set tr' \<longrightarrow> ms = 2000"
    using try_block_events[of stage "web u"] t by auto
  show ?thesis
  proof (cases b)
    case True
    then show ?thesis by (simp add: scrapeContent_def h)
  next
    case False
    have "snd (scrapeContent stage pathname web u)
            = Launch # tr' @ (if launch_ok (web u) then [Close] else [])"
      using False by (simp add: scrapeContent_def h t br tr(1) Let_def)
    then show ?thesis
      using False h tr(2-5) by (intro disjI2 conjI exI[of _ tr']) simp_all
  qed
qed

lemma scrapeContent_nonempty:
  assumes "fst (scrapeContent stage pathname web u) = Inr r" and "scraped.content r \<noteq> []"
  shows "r = stage (dom (web u))"
    and "isHomepage pathname u = Inr False"
    and "reaches_extraction (web u)"
    and "launch_ok (web u) \<longrightarrow> close_ok (web u)"
proof -
  obtain b where h: "isHomepage pathname u = Inr b"
    using isHomepage_total by blast
  note a = assms[unfolded scrapeContent_outcome h]
  show "r = stage (dom (web u))"
    using a by (cases b) (auto simp: no_content_def split: if_splits)
  show "isHomepage pathname u = Inr False"
    using a h by (cases b) (auto simp: no_content_def split: if_splits)
  show "reaches_extraction (web u)"
    using a by (cases b) (auto simp: no_content_def split: if_splits)
  show "launch_ok (web u) \<longrightarrow> close_ok (web u)"
    using a by (cases b) (auto simp: no_content_def split: if_splits)
qed

lemma news_path_lower: "map lower ''/news/edtech'' = ''/news/edtech''"
  by (simp add: lower_def)

lemma not_homepage_news:
  assumes "pathname u = Some p" and "map lower p = ''/news/edtech''"
  shows "isHomepage pathname u = Inr False"
proof -
  have "p \<noteq> []" "p \<noteq> ''/''"
    using assms(2) by auto
  then show ?thesis
    using assms
    by (simp add: isHomepage_def isHomepage_try_def homepagePatterns_def nonArticlePatterns_def
        boilerplate_def)
qed

lemma news_url_pathname: "example_pathname news_url = Some ''/news/edtech''"
  by (simp add: example_pathname_def news_url_def js_def)

lemma news_url_article: "isHomepage example_pathname news_url = Inr False"
  using news_url_pathname news_path_lower by (rule not_homepage_news)

lemma scrapeContent_close_count:
  "count_list (snd (scrapeContent stage pathname web u)) Close =
     (if isHomepage pathname u = Inr False \<and> launch_ok (web u) then 1 else 0)"
  using scrapeContent_events[of stage pathname web u]
  by (auto simp: count_list_0_iff)

lemma scrapeContent_close_last:
  "isHomepage pathname u = Inr False \<Longrightarrow> launch_ok (web u) \<Longrightarrow>
   hd (snd (scrapeContent stage pathname web u)) = Launch
   \<and> last (snd (scrapeContent stage pathname web u)) = Close
   \<and> Close \<notin> set (butlast (snd (scrapeContent stage pathname web u)))"
  using scrapeContent_events[of stage pathname web u]
  by (auto simp: butlast_append)

lemma scrapeContent_gave_up:
  assumes "isHomepage pathname u = Inr False" and "launch_ok (web u)" and "page_ok (web u)"
    and "settled (goto (web u) 1) = None" and "settled (goto (web u) 2) = None"
    and "settled (goto (web u) 3) = None"
  shows "scrapeContent stage pathname web u =
     (if close_ok (web u) then Inr no_content else Inl CloseFailed,
      [Launch, OpenPage, Navigate 1 30000, Sleep 2000, Navigate 2 30000, Sleep 2000,
       Navigate 3 30000, Close])"
  using assms by (simp add: scrapeContent_def try_block_def navigate_gave_up)

lemma scrapeContent_attempts:
  "(\<forall>n ms. Navigate n ms \<in> set (snd (scrapeContent stage pathname web u))
       \<longrightarrow> 1 \<le> n \<and> n \<le> 3 \<and> ms = 30000)
   \<and> (\<forall>n ms. count_list (snd (scrapeContent stage pathname web u)) (Navigate n ms) \<le> 1)
   \<and> (\<forall>ms. Sleep ms \<in> set (snd (scrapeContent stage pathname web u)) \<longrightarrow> ms = 2000)"
  using scrapeContent_events[of stage pathname web u]
  by (elim disjE conjE exE) (simp, simp split: if_splits)

lemma composeText_cjs_title: "\<exists>rest. composeText_cjs q = extractTitle q @ sp # rest"
  by (simp add: composeText_cjs_def Let_def)

lemma extract_cjs_content:
  "scraped.content (extract_cjs toISOString q) = cleanContent_cjs (extractText_cjs q)"
  by (simp add: extract_cjs_def Let_def)

lemma cleanContent_cjs_prefix:
  "\<not> bodyFallback_cjs q \<Longrightarrow>
   take (length (cleanContent_cjs (extractTitle q))) (cleanContent_cjs (extractText_cjs q))
     = cleanContent_cjs (extractTitle q)"
proof -
  assume b: "\<not> bodyFallback_cjs q"
  obtain rest where r: "composeText_cjs q = extractTitle q @ sp # rest"
    using composeText_cjs_title by blast
  have "extractText_cjs q = extractTitle q @ sp # rest"
    using b r by (simp add: extractText_cjs_def)
  then show ?thesis
    by (simp add: cleanContent_cjs_spec normalize_spec_prefix)
qed

lemma trim_core:
  assumes "\<forall>x\<in>set a. is_ws x" and "\<forall>x\<in>set b. is_ws x"
    and "core \<noteq> []" and "\<not> is_ws (hd core)" and "\<not> is_ws (last core)"
  shows "trim (a @ core @ b) = core"
proof -
  have d: "dropWhile is_ws (a @ core @ b) = core @ b"
    using assms(1,3,4) by (cases core) (simp_all add: dropWhile_append)
  have "dropWhile is_ws (rev b @ rev core) = rev core"
    using assms(2,3,5) by (cases "rev core") (simp_all add: dropWhile_append last_rev[symmetric] hd_rev)
  then show ?thesis
    by (simp add: trim_def trimEnd_def d)
qed

lemma good_site_outcome:
  "isHomepage pathname u = Inr False \<Longrightarrow>
   fst (scrapeContent stage pathname (\<lambda>u. good_site q) u) = Inr (stage q)"
  by (simp add: scrapeContent_outcome good_site_def reaches_extraction_def first_response_def
      load_failed_def)

lemma titled_doc_title: "extractTitle (titled_doc t) = t"
  by (simp add: extractTitle_def titled_doc_def sel_text_def)

lemma titled_doc_main: "find_main (titled_doc t) [] articleSelectors = []"
  by (simp add: articleSelectors_def titled_doc_def)

lemma titled_doc_compose:
  "composeText_cjs (titled_doc t) = t @ [sp, sp] @ replicate 60 0x62 @ [sp, sp]"
  by (simp add: composeText_cjs_def titled_doc_title titled_doc_main Let_def)
     (simp add: titled_doc_def trim_replicate)

lemma titled_web_fun: "titled_web t = (\<lambda>u. good_site (titled_doc t))"
  by (rule ext) (simp add: titled_web_def)

lemma titled_web_dom: "dom (titled_web t u) = titled_doc t"
  by (simp add: titled_web_def good_site_def)

lemma news_no_ws: "\<forall>x\<in>set (js ''News''). \<not> is_ws x"
  by (simp add: js_def is_ws_def)

lemma news_not_Nil: "js ''News'' \<noteq> []"
  by (simp add: js_def)

lemma titled_doc_no_fallback:
  assumes "\<forall>x\<in>set a. is_ws x"
  shows "\<not> bodyFallback_cjs (titled_doc (a @ js ''News''))"
proof -
  let ?core = "js ''News'' @ [sp, sp] @ replicate 60 0x62"
  have h: "hd ?core = hd (js ''News'')" and l: "last ?core = 0x62"
    using news_not_Nil by simp_all
  have nh: "\<not> is_ws (hd (js ''News''))"
    using news_no_ws news_not_Nil by (cases "js ''News''") auto
  have "trim (a @ ?core @ [sp, sp]) = ?core"
    using assms nh by (intro trim_core) (simp_all only: h l not_ws_letters, simp_all)
  then have "length (trim (composeText_cjs (titled_doc (a @ js ''News'')))) \<ge> 50"
    by (simp add: titled_doc_compose)
  then show ?thesis
    by (simp add: bodyFallback_cjs_def titled_doc_compose)
qed

lemma titled_doc_content:
  assumes "\<forall>x\<in>set a. is_ws x"
  shows "cleanContent_cjs (extractText_cjs (titled_doc (a @ js ''News'')))
           = js ''News'' @ sp # replicate 60 0x62"
proof -
  have e: "extractText_cjs (titled_doc (a @ js ''News''))
             = a @ js ''News'' @ [sp, sp] @ replicate 60 0x62 @ [sp, sp]"
    using titled_doc_no_fallback[OF assms] by (simp add: extractText_cjs_def titled_doc_compose)
  have n0: "normalize_spec (js ''News'' @ sp # sp # replicate 60 0x62 @ [sp, sp])
              = js ''News'' @ sp # replicate 60 0x62"
    using news_no_ws news_not_Nil
    by (simp add: normalize_spec_append_ws normalize_spec_ws_Cons tokens_eq_Nil
        normalize_spec_word)
  have "normalize_spec (a @ js ''News'' @ sp # sp # replicate 60 0x62 @ [sp, sp])
          = normalize_spec (js ''News'' @ sp # sp # replicate 60 0x62 @ [sp, sp])"
  proof (cases a rule: rev_cases)
    case Nil
    then show ?thesis by simp
  next
    case (snoc as c)
    then have c: "is_ws c" and "\<forall>x\<in>set as. is_ws x"
      using assms by auto
    then have "tokens as = []"
      by (simp add: tokens_eq_Nil)
    then show ?thesis
      using c snoc by (simp add: normalize_spec_append_ws)
  qed
  then show ?thesis
    by (simp add: cleanContent_cjs_spec e n0)
qed

section \<open>Properties of the batch coordinator\<close>

lemma succeeds_iff:
  "succeeds stage pathname web r \<longleftrightarrow>
     isHomepage pathname (url r) = Inr False \<and> reaches_extraction (web (url r))
     \<and> close_ok (web (url r)) \<and> scraped.content (stage (dom (web (url r)))) \<noteq> []"
proof -
  obtain b where h: "isHomepage pathname (url r) = Inr b"
    using isHomepage_total by blast
  show ?thesis
    by (cases b)
       (auto simp: succeeds_def scrapeContent_outcome h no_content_def reaches_extraction_def)
qed

lemma succeeds_outcome:
  "succeeds stage pathname web r \<Longrightarrow>
   fst (scrapeContent stage pathname web (url r)) = Inr (stage (dom (web (url r))))"
  by (auto simp: succeeds_iff scrapeContent_outcome reaches_extraction_def)

lemma not_succeeds_outcome:
  "\<not> succeeds stage pathname web r \<Longrightarrow>
   fst (scrapeContent stage pathname web (url r)) = Inr sc \<Longrightarrow> scraped.content sc = []"
  by (simp add: succeeds_def)

lemma extract_esm_content:
  "scraped.content (extract_esm q) \<noteq> [] \<longleftrightarrow> 100 \<le> length (cleanContent_esm (extractText_esm q))"
  by (auto simp: extract_esm_def Let_def no_content_def)

lemma extract_esm_fields:
  "scraped.content (extract_esm q) \<noteq> [] \<Longrightarrow>
   scraped.content (extract_esm q) = cleanContent_esm (extractText_esm q)
   \<and> scraped.publishedDate (extract_esm q) = extractPublicationDate_esm q"
  by (auto simp: extract_esm_def Let_def no_content_def split: if_splits)

lemma batch_esm_eq:
  "batch_esm pathname web acc steps rs =
     (acc @ map (emitted_esm web) (filter (succeeds extract_esm pathname web) rs),
      steps @ concat (map (\<lambda>r. [Visit (url r) (snd (scrapeContent_esm pathname web (url r))),
                                  Delay 1000]) rs))"
proof (induction rs arbitrary: acc steps)
  case Nil
  show ?case by simp
next
  case (Cons r rs)
  obtain outcome tr where sc: "scrapeContent_esm pathname web (url r) = (outcome, tr)"
    by (cases "scrapeContent_esm pathname web (url r)")
  then have o: "fst (scrapeContent extract_esm pathname web (url r)) = outcome"
    by (simp add: scrapeContent_esm_def)
  show ?case
  proof (cases "succeeds extract_esm pathname web r")
    case True
    then have out: "outcome = Inr (extract_esm (dom (web (url r))))"
      using succeeds_outcome o by metis
    have ne: "scraped.content (extract_esm (dom (web (url r)))) \<noteq> []"
      using True by (simp add: succeeds_iff)
    show ?thesis
      using True extract_esm_fields[OF ne] ne
      by (simp add: sc out Cons.IH emitted_esm_def)
  next
    case False
    then have "\<And>x. outcome = Inr x \<Longrightarrow> scraped.content x = []"
      using not_succeeds_outcome o by metis
    then show ?thesis
      using False by (cases outcome) (simp_all add: sc Cons.IH)
  qed
qed

lemma batch_cjs_eq:
  "batch_cjs toISOString pathname web acc steps rs =
     (acc @ map (emitted_cjs toISOString web)
              (filter (succeeds (extract_cjs toISOString) pathname web) rs),
      steps @ map (\<lambda>r. if isHomepage pathname (url r) = Inr True then Skipped (url r)
                        else Visit (url r) (snd (scrapeContent_cjs toISOString pathname web (url r))))
                rs)"
proof (induction rs arbitrary: acc steps)
  case Nil
  show ?case by simp
next
  case (Cons r rs)
  obtain b where h: "isHomepage pathname (url r) = Inr b"
    using isHomepage_total by blast
  show ?case
  proof (cases b)
    case True
    then have "\<not> succeeds (extract_cjs toISOString) pathname web r"
      using h by (simp add: succeeds_iff)
    then show ?thesis
      using True h by (simp add: Cons.IH)
  next
    case nb: False
    obtain outcome tr where sc: "scrapeContent_cjs toISOString pathname web (url r) = (outcome, tr)"
      by (cases "scrapeContent_cjs toISOString pathname web (url r)")
    then have o: "fst (scrapeContent (extract_cjs toISOString) pathname web (url r)) = outcome"
      by (simp add: scrapeContent_cjs_def)
    show ?thesis
    proof (cases "succeeds (extract_cjs toISOString) pathname web r")
      case True
      then have out: "outcome = Inr (extract_cjs toISOString (dom (web (url r))))"
        using succeeds_outcome o by metis
      have ne: "scraped.content (extract_cjs toISOString (dom (web (url r)))) \<noteq> []"
        using True by (simp add: succeeds_iff)
      have f: "scraped.publishedDate (extract_cjs toISOString q) = extractPublicationDate_cjs toISOString q" for q
        by (simp add: extract_cjs_def Let_def)
      show ?thesis
        using True ne nb h
        by (simp add: sc out Cons.IH emitted_cjs_def extract_cjs_content f)
    next
      case False
      then have "\<And>x. outcome = Inr x \<Longrightarrow> scraped.content x = []"
        using not_succeeds_outcome o by metis
      then show ?thesis
        using False nb h by (cases outcome) (simp_all add: sc Cons.IH)
    qed
  qed
qed

lemma url_emitted_esm: "url (emitted_esm web r) = url r"
  by (simp add: emitted_esm_def)

lemma url_emitted_cjs: "url (emitted_cjs toISOString web r) = url r"
  by (simp add: emitted_cjs_def candidate.defs)

lemma content_emitted_esm:
  "article.content (emitted_esm web r) = cleanContent_esm (extractText_esm (dom (web (url r))))"
  by (simp add: emitted_esm_def)

lemma content_emitted_cjs:
  "article.content (emitted_cjs toISOString web r)
     = cleanContent_cjs (extractText_cjs (dom (web (url r))))"
  by (simp add: emitted_cjs_def candidate.defs article.defs)

lemma alternating_nth:
  "i < length rs \<Longrightarrow>
   concat (map (\<lambda>r. [f r, g]) rs) ! (2 * i) = f (rs ! i)
   \<and> concat (map (\<lambda>r. [f r, g]) rs) ! (2 * i + 1) = g"
proof (induction rs arbitrary: i)
  case Nil
  then show ?case by simp
next
  case (Cons r rs)
  show ?case
  proof (cases i)
    case 0
    then show ?thesis by simp
  next
    case (Suc j)
    then have "j < length rs"
      using Cons.prems by simp
    from Cons.IH[OF this] show ?thesis
      using Suc by simp
  qed
qed

lemma container_doc_text_esm: "extractText_esm container_doc = replicate 250 0x61"
proof -
  have "find (\<lambda>sel. 200 < length (trim (sel_text (container_doc sel)))) contentSelectors
          = Some ''article''"
    by (simp add: contentSelectors_def container_doc_article trim_replicate)
  then show ?thesis
    by (simp add: extractText_esm_find container_doc_article trim_replicate)
qed

lemma container_doc_content_esm:
  "cleanContent_esm (extractText_esm container_doc) = replicate 250 0x61"
  by (simp add: container_doc_text_esm cleanContent_esm_spec normalize_spec_word)

lemma container_doc_text_cjs:
  "extractText_cjs container_doc = [sp, sp] @ replicate 50 0x62 @ [sp, sp] @ replicate 250 0x61"
proof -
  have t: "extractTitle container_doc = []"
    by (simp add: extractTitle_def container_doc_def)
  have m: "find_main container_doc [] articleSelectors = replicate 250 0x61"
    by (simp add: articleSelectors_def container_doc_def sel_text_def trim_replicate Let_def)
  have c: "composeText_cjs container_doc
             = [sp, sp] @ replicate 50 0x62 @ [sp, sp] @ replicate 250 0x61"
    by (simp add: composeText_cjs_def t m Let_def container_doc_def trim_replicate)
  have "trim ([sp, sp] @ replicate 50 0x62 @ [sp, sp] @ replicate 250 0x61)
          = replicate 50 0x62 @ [sp, sp] @ replicate 250 0x61"
    by (simp add: trim_ws_Cons trim_id hd_append)
  then have "\<not> bodyFallback_cjs container_doc"
    by (simp add: bodyFallback_cjs_def c)
  then show ?thesis
    by (simp add: extractText_cjs_def c)
qed

lemma container_doc_content_cjs:
  "cleanContent_cjs (extractText_cjs container_doc) = replicate 50 0x62 @ sp # replicate 250 0x61"
  by (simp add: container_doc_text_cjs cleanContent_cjs_spec normalize_spec_ws_Cons
      normalize_spec_append_ws tokens_eq_Nil normalize_spec_word)

lemma root_url_skipped: "isHomepage example_pathname root_url = Inr True"
  by (simp add: isHomepage_def isHomepage_try_def example_pathname_def root_url_def js_def
      homepagePatterns_def)

lemma privacy_lower: "map lower ''/Privacy/'' = ''/privacy/''"
  by (simp add: lower_def)

lemma privacy_url_skipped: "isHomepage example_pathname privacy_url = Inr True"
proof -
  have p: "example_pathname privacy_url = Some ''/Privacy/''"
    by (simp add: example_pathname_def privacy_url_def)
  have "list_ex (\<lambda>p. pattern_test p ''/Privacy/'') nonArticlePatterns"
    unfolding nonArticlePatterns_def list_ex_Dir privacy_lower
    by (simp add: boilerplate_def)
  then show ?thesis
    by (simp add: isHomepage_def isHomepage_try_def p)
qed

lemma slug_url_article: "isHomepage example_pathname slug_url = Inr False"
proof -
  have "example_pathname slug_url = Some ''/2025/06/19/article-slug/''"
    by (simp add: example_pathname_def slug_url_def js_def)
  then show ?thesis
    using article_path_lower by (rule not_homepage)
qed

lemma other_url_article: "isHomepage example_pathname other_url = Inr False"
proof -
  have "example_pathname other_url = Some ''/news/edtech''"
    by (simp add: example_pathname_def other_url_def js_def)
  then show ?thesis
    using news_path_lower by (rule not_homepage_news)
qed

lemma five_web_sites:
  "five_web news_url = good_site container_doc"
  "five_web other_url = good_site container_doc"
  "five_web slug_url = timeout_site True"
  by (simp_all add: five_web_def news_url_def other_url_def slug_url_def js_def)

lemma good_site_reaches: "reaches_extraction (good_site q)" "close_ok (good_site q)"
  "dom (good_site q) = q"
  by (simp_all add: good_site_def reaches_extraction_def first_response_def load_failed_def)

lemma timeout_site_fails: "\<not> reaches_extraction (timeout_site closes)"
  by (simp add: timeout_site_def reaches_extraction_def first_response_def)

lemma five_succeeds_esm:
  "filter (succeeds extract_esm example_pathname five_web) five_candidates = two_candidates"
  by (simp add: five_candidates_def two_candidates_def succeeds_iff root_url_skipped
      privacy_url_skipped slug_url_article other_url_article news_url_article five_web_sites
      good_site_reaches timeout_site_fails extract_esm_content container_doc_content_esm)

lemma five_succeeds_cjs:
  "filter (succeeds (extract_cjs toISOString) example_pathname five_web) five_candidates
     = two_candidates"
  by (simp add: five_candidates_def two_candidates_def succeeds_iff root_url_skipped
      privacy_url_skipped slug_url_article other_url_article news_url_article five_web_sites
      good_site_reaches timeout_site_fails extract_cjs_content container_doc_content_cjs)

section \<open>The claims\<close>

text \<open>
  Claim C1, as amended. Every object the ES-module \<^verbatim>\<open>scrapeMultipleUrls\<close> returns has
  content of at least 100 code units, and the content is the normalised text extracted
  from the page of its URL; a URL whose normalised text is shorter than 100 code units
  has no object in the result. Every object the CommonJS \<^verbatim>\<open>scrapeMultipleUrls\<close> returns
  has content that is not empty and is the normalised text extracted from the page of
  its URL; the CommonJS copy has no floor on the length.
\<close>

theorem emitted_content_floor:
  "(\<forall>a\<in>set (fst (scrapeMultipleUrls_esm pathname web rs)).
       100 \<le> length (article.content a)
       \<and> article.content a = cleanContent_esm (extractText_esm (dom (web (url a)))))
   \<and> (length (cleanContent_esm (extractText_esm (dom (web u)))) < 100
        \<longrightarrow> u \<notin> set (map url (fst (scrapeMultipleUrls_esm pathname web rs))))
   \<and> (\<forall>a\<in>set (fst (scrapeMultipleUrls_cjs toISOString pathname web rs)).
       article.content a \<noteq> []
       \<and> article.content a = cleanContent_cjs (extractText_cjs (dom (web (url a)))))"
proof -
  have e: "fst (scrapeMultipleUrls_esm pathname web rs)
     = map (emitted_esm web) (filter (succeeds extract_esm pathname web) rs)"
    by (simp add: scrapeMultipleUrls_esm_def batch_esm_eq)
  have c: "fst (scrapeMultipleUrls_cjs toISOString pathname web rs)
     = map (emitted_cjs toISOString web) (filter (succeeds (extract_cjs toISOString) pathname web) rs)"
    by (simp add: scrapeMultipleUrls_cjs_def batch_cjs_eq)
  have 1: "\<forall>a\<in>set (fst (scrapeMultipleUrls_esm pathname web rs)).
       100 \<le> length (article.content a)
       \<and> article.content a = cleanContent_esm (extractText_esm (dom (web (url a))))"
    unfolding e
    by (auto simp: succeeds_iff extract_esm_content content_emitted_esm url_emitted_esm)
  have 2: "length (cleanContent_esm (extractText_esm (dom (web u)))) < 100
        \<longrightarrow> u \<notin> set (map url (fst (scrapeMultipleUrls_esm pathname web rs)))"
    unfolding e
    by (auto simp: succeeds_iff extract_esm_content url_emitted_esm)
  have 3: "\<forall>a\<in>set (fst (scrapeMultipleUrls_cjs toISOString pathname web rs)).
       article.content a \<noteq> []
       \<and> article.content a = cleanContent_cjs (extractText_cjs (dom (web (url a))))"
    unfolding c
    by (auto simp: succeeds_iff extract_cjs_content content_emitted_cjs url_emitted_cjs)
  from 1 2 3 show ?thesis
    by (intro conjI)
qed

text \<open>
  The theorem at the five search results: the ES-module copy returns two objects, each
  with the 250 letters of the article as content.
\<close>

theorem emitted_content_floor_witness:
  "map article.content (fst (scrapeMultipleUrls_esm example_pathname five_web five_candidates))
     = [replicate 250 0x61, replicate 250 0x61]
   \<and> list_all (\<lambda>a. 100 \<le> length (article.content a))
        (fst (scrapeMultipleUrls_esm example_pathname five_web five_candidates))"
proof -
  have e: "fst (scrapeMultipleUrls_esm example_pathname five_web five_candidates)
             = map (emitted_esm five_web) two_candidates"
    by (simp add: scrapeMultipleUrls_esm_def batch_esm_eq five_succeeds_esm)
  have 1: "map article.content (fst (scrapeMultipleUrls_esm example_pathname five_web five_candidates))
     = [replicate 250 0x61, replicate 250 0x61]"
    by (simp add: e two_candidates_def content_emitted_esm five_web_sites good_site_reaches
        container_doc_content_esm)
  have 2: "list_all (\<lambda>a. 100 \<le> length (article.content a))
        (fst (scrapeMultipleUrls_esm example_pathname five_web five_candidates))"
    using emitted_content_floor[of example_pathname five_web five_candidates _ example_toISOString,
        THEN conjunct1]
    unfolding list_all_iff by blast
  from 1 2 show ?thesis
    by (intro conjI)
qed

text \<open>
  The claim as stated fails on the CommonJS copy: for a page whose whole text is
  \<^verbatim>\<open>hello\<close> it returns an object whose content has five code units.
\<close>

theorem emitted_content_floor_counterexample:
  "map article.content
     (fst (scrapeMultipleUrls_cjs example_toISOString example_pathname hello_web hello_candidates))
     = [js ''hello'']
   \<and> length (js ''hello'') < 100"
proof -
  have t: "extractTitle hello_doc = []"
    by (simp add: extractTitle_def hello_doc_def)
  have m: "find_main hello_doc [] articleSelectors = []"
    by (simp add: articleSelectors_def hello_doc_def)
  have c: "composeText_cjs hello_doc = [sp, sp, sp, sp]"
    by (simp add: composeText_cjs_def t m Let_def) (simp add: hello_doc_def)
  have "trim [sp, sp, sp, sp] = []"
    by (simp add: trim_ws_Cons)
  then have b: "bodyFallback_cjs hello_doc"
    by (simp add: bodyFallback_cjs_def c)
  have h: "\<forall>x\<in>set (js ''hello''). \<not> is_ws x" "js ''hello'' \<noteq> []"
    by (simp_all add: js_def is_ws_def)
  have x: "extractText_cjs hello_doc = js ''hello''"
    using b h by (simp add: extractText_cjs_def hello_doc_def sel_text_def trim_word)
  have k: "cleanContent_cjs (extractText_cjs hello_doc) = js ''hello''"
    using h by (simp add: x cleanContent_cjs_spec normalize_spec_word)
  have s: "filter (succeeds (extract_cjs example_toISOString) example_pathname hello_web) hello_candidates
             = hello_candidates"
    using h(2)
    by (simp add: hello_candidates_def succeeds_iff news_url_article hello_web_def
        good_site_reaches extract_cjs_content k)
  have "map article.content
     (fst (scrapeMultipleUrls_cjs example_toISOString example_pathname hello_web hello_candidates))
     = [js ''hello'']"
    by (simp add: scrapeMultipleUrls_cjs_def batch_cjs_eq s)
       (simp add: hello_candidates_def content_emitted_cjs hello_web_def good_site_reaches k)
  moreover have "length (js ''hello'') < 100"
    by (simp add: js_def)
  ultimately show ?thesis
    by (intro conjI)
qed

text \<open>
  Claim C2. In both copies \<^verbatim>\<open>scrapeMultipleUrls\<close> returns, for every list of search
  results, one object for each result that succeeds and none for the others, in the
  order of the input. A result succeeds exactly when its URL is not skipped, the fetch
  reaches the extraction, the browser closes without an error and the extracted content
  is not empty; a skip, a failed fetch, insufficient content or an error thrown by
  \<^verbatim>\<open>scrapeContent\<close> removes that entry only. Each object carries the URL of its search
  result.
\<close>

theorem scrapeMultipleUrls_successes:
  "fst (scrapeMultipleUrls_esm pathname web rs)
     = map (emitted_esm web) (filter (succeeds extract_esm pathname web) rs)
   \<and> fst (scrapeMultipleUrls_cjs toISOString pathname web rs)
     = map (emitted_cjs toISOString web) (filter (succeeds (extract_cjs toISOString) pathname web) rs)
   \<and> map url (fst (scrapeMultipleUrls_esm pathname web rs))
     = map url (filter (succeeds extract_esm pathname web) rs)
   \<and> map url (fst (scrapeMultipleUrls_cjs toISOString pathname web rs))
     = map url (filter (succeeds (extract_cjs toISOString) pathname web) rs)
   \<and> (succeeds stage pathname web r \<longleftrightarrow>
        isHomepage pathname (url r) = Inr False \<and> reaches_extraction (web (url r))
        \<and> close_ok (web (url r)) \<and> scraped.content (stage (dom (web (url r)))) \<noteq> [])"
proof -
  have 1: "fst (scrapeMultipleUrls_esm pathname web rs)
     = map (emitted_esm web) (filter (succeeds extract_esm pathname web) rs)"
    by (simp add: scrapeMultipleUrls_esm_def batch_esm_eq)
  have 2: "fst (scrapeMultipleUrls_cjs toISOString pathname web rs)
     = map (emitted_cjs toISOString web) (filter (succeeds (extract_cjs toISOString) pathname web) rs)"
    by (simp add: scrapeMultipleUrls_cjs_def batch_cjs_eq)
  have 3: "map url (fst (scrapeMultipleUrls_esm pathname web rs))
     = map url (filter (succeeds extract_esm pathname web) rs)"
    by (simp add: 1 url_emitted_esm comp_def)
  have 4: "map url (fst (scrapeMultipleUrls_cjs toISOString pathname web rs))
     = map url (filter (succeeds (extract_cjs toISOString) pathname web) rs)"
    by (simp add: 2 url_emitted_cjs comp_def)
  have 5: "succeeds stage pathname web r \<longleftrightarrow>
        isHomepage pathname (url r) = Inr False \<and> reaches_extraction (web (url r))
        \<and> close_ok (web (url r)) \<and> scraped.content (stage (dom (web (url r)))) \<noteq> []"
    by (rule succeeds_iff)
  from 1 2 3 4 5 show ?thesis
    by (intro conjI)
qed

text \<open>
  The theorem at five search results of which the first and third are skippable, the
  fourth fails navigation on every attempt, and the second and fifth load: both copies
  return the second and the fifth, in that order.
\<close>

theorem scrapeMultipleUrls_successes_witness:
  "map url (fst (scrapeMultipleUrls_esm example_pathname five_web five_candidates))
     = [news_url, other_url]
   \<and> map url (fst (scrapeMultipleUrls_cjs example_toISOString example_pathname five_web five_candidates))
     = [news_url, other_url]"
proof -
  note t = scrapeMultipleUrls_successes[of example_pathname five_web five_candidates example_toISOString]
  have e: "map url (fst (scrapeMultipleUrls_esm example_pathname five_web five_candidates))
     = map url two_candidates"
    using t[THEN conjunct2, THEN conjunct2, THEN conjunct1] by (simp only: five_succeeds_esm)
  have c: "map url (fst (scrapeMultipleUrls_cjs example_toISOString example_pathname five_web five_candidates))
     = map url two_candidates"
    using t[THEN conjunct2, THEN conjunct2, THEN conjunct2, THEN conjunct1]
    by (simp only: five_succeeds_cjs)
  have "map url two_candidates = [news_url, other_url]"
    by (simp add: two_candidates_def)
  with e c show ?thesis
    by simp
qed

text \<open>
  Claim C3, as amended. A timer win and a rejected navigation are both failed attempts.
  For every URL whose navigation fails on every attempt, \<^verbatim>\<open>scrapeContent\<close> (either copy)
  returns the empty-content result, unless it acquired a browser and
  \<^verbatim>\<open>browser.close()\<close> rejects: then that rejection is what the call raises. When the URL
  is not skipped, the browser launches and the page is set up, it makes exactly three
  attempts, each raced against a timer of 30000 ms, sleeps 2000 ms between them, and
  closes the browser. For every URL and site, an attempt number occurs at most once and
  lies between 1 and 3, every timer is 30000 ms and every sleep inside the call is
  2000 ms.
\<close>

theorem navigation_exhausted:
  "settled TimerWon = None \<and> settled GotoRejected = None
   \<and> (settled (goto (web u) 1) = None \<and> settled (goto (web u) 2) = None
        \<and> settled (goto (web u) 3) = None
        \<longrightarrow> fst (scrapeContent_esm pathname web u) =
              (if isHomepage pathname u = Inr False \<and> launch_ok (web u) \<and> \<not> close_ok (web u)
               then Inl CloseFailed else Inr no_content)
          \<and> fst (scrapeContent_cjs toISOString pathname web u) =
              (if isHomepage pathname u = Inr False \<and> launch_ok (web u) \<and> \<not> close_ok (web u)
               then Inl CloseFailed else Inr no_content))
   \<and> (isHomepage pathname u = Inr False \<and> launch_ok (web u) \<and> page_ok (web u)
        \<and> settled (goto (web u) 1) = None \<and> settled (goto (web u) 2) = None
        \<and> settled (goto (web u) 3) = None
        \<longrightarrow> scrapeContent_esm pathname web u =
              (if close_ok (web u) then Inr no_content else Inl CloseFailed,
               [Launch, OpenPage, Navigate 1 30000, Sleep 2000, Navigate 2 30000, Sleep 2000,
                Navigate 3 30000, Close])
          \<and> scrapeContent_cjs toISOString pathname web u =
              (if close_ok (web u) then Inr no_content else Inl CloseFailed,
               [Launch, OpenPage, Navigate 1 30000, Sleep 2000, Navigate 2 30000, Sleep 2000,
                Navigate 3 30000, Close]))
   \<and> (\<forall>n ms. Navigate n ms \<in> set (snd (scrapeContent_esm pathname web u))
         \<longrightarrow> 1 \<le> n \<and> n \<le> 3 \<and> ms = 30000)
   \<and> (\<forall>n ms. count_list (snd (scrapeContent_esm pathname web u)) (Navigate n ms) \<le> 1)
   \<and> (\<forall>ms. Sleep ms \<in> set (snd (scrapeContent_esm pathname web u)) \<longrightarrow> ms = 2000)
   \<and> (\<forall>n ms. Navigate n ms \<in> set (snd (scrapeContent_cjs toISOString pathname web u))
         \<longrightarrow> 1 \<le> n \<and> n \<le> 3 \<and> ms = 30000)
   \<and> (\<forall>n ms. count_list (snd (scrapeContent_cjs toISOString pathname web u)) (Navigate n ms) \<le> 1)
   \<and> (\<forall>ms. Sleep ms \<in> set (snd (scrapeContent_cjs toISOString pathname web u)) \<longrightarrow> ms = 2000)"
proof -
  have 1: "settled TimerWon = None" "settled GotoRejected = None"
    by simp_all
  have 2: "isHomepage pathname u = Inr False \<and> launch_ok (web u) \<and> page_ok (web u)
        \<and> settled (goto (web u) 1) = None \<and> settled (goto (web u) 2) = None
        \<and> settled (goto (web u) 3) = None
        \<longrightarrow> scrapeContent_esm pathname web u =
              (if close_ok (web u) then Inr no_content else Inl CloseFailed,
               [Launch, OpenPage, Navigate 1 30000, Sleep 2000, Navigate 2 30000, Sleep 2000,
                Navigate 3 30000, Close])
          \<and> scrapeContent_cjs toISOString pathname web u =
              (if close_ok (web u) then Inr no_content else Inl CloseFailed,
               [Launch, OpenPage, Navigate 1 30000, Sleep 2000, Navigate 2 30000, Sleep 2000,
                Navigate 3 30000, Close])"
    unfolding scrapeContent_esm_def scrapeContent_cjs_def
    by (intro impI conjI; elim conjE) (rule scrapeContent_gave_up; assumption)+
  have 3: "settled (goto (web u) 1) = None \<and> settled (goto (web u) 2) = None
        \<and> settled (goto (web u) 3) = None
        \<longrightarrow> fst (scrapeContent_esm pathname web u) =
              (if isHomepage pathname u = Inr False \<and> launch_ok (web u) \<and> \<not> close_ok (web u)
               then Inl CloseFailed else Inr no_content)
          \<and> fst (scrapeContent_cjs toISOString pathname web u) =
              (if isHomepage pathname u = Inr False \<and> launch_ok (web u) \<and> \<not> close_ok (web u)
               then Inl CloseFailed else Inr no_content)"
  proof (intro impI, elim conjE)
    assume a: "settled (goto (web u) 1) = None" "settled (goto (web u) 2) = None"
      "settled (goto (web u) 3) = None"
    then have n: "\<not> reaches_extraction (web u)"
      by (simp add: reaches_extraction_def first_response_def)
    obtain b where h: "isHomepage pathname u = Inr b"
      using isHomepage_total by blast
    show "fst (scrapeContent_esm pathname web u) =
              (if isHomepage pathname u = Inr False \<and> launch_ok (web u) \<and> \<not> close_ok (web u)
               then Inl CloseFailed else Inr no_content)
          \<and> fst (scrapeContent_cjs toISOString pathname web u) =
              (if isHomepage pathname u = Inr False \<and> launch_ok (web u) \<and> \<not> close_ok (web u)
               then Inl CloseFailed else Inr no_content)"
      using n h by (cases b) (simp_all add: scrapeContent_esm_def scrapeContent_cjs_def scrapeContent_outcome)
  qed
  note e = scrapeContent_attempts[where stage = extract_esm and pathname = pathname
      and web = web and u = u, folded scrapeContent_esm_def]
  note c = scrapeContent_attempts[where stage = "extract_cjs toISOString" and pathname = pathname
      and web = web and u = u, folded scrapeContent_cjs_def]
  show ?thesis
    using 1 2 3 e c by (intro conjI) blast+
qed

text \<open>
  The theorem at a site where every navigation loses the race against the timer and
  the browser closes: three attempts, two sleeps, one close, the empty result.
\<close>

theorem navigation_exhausted_witness:
  "scrapeContent_esm example_pathname slow_web news_url =
     (Inr no_content,
      [Launch, OpenPage, Navigate 1 30000, Sleep 2000, Navigate 2 30000, Sleep 2000,
       Navigate 3 30000, Close])
   \<and> scrapeContent_cjs example_toISOString example_pathname slow_web news_url =
     (Inr no_content,
      [Launch, OpenPage, Navigate 1 30000, Sleep 2000, Navigate 2 30000, Sleep 2000,
       Navigate 3 30000, Close])"
proof -
  have h: "isHomepage example_pathname news_url = Inr False \<and> launch_ok (slow_web news_url)
        \<and> page_ok (slow_web news_url)
        \<and> settled (goto (slow_web news_url) 1) = None \<and> settled (goto (slow_web news_url) 2) = None
        \<and> settled (goto (slow_web news_url) 3) = None"
    by (simp add: news_url_article slow_web_def timeout_site_def)
  have c: "close_ok (slow_web news_url)"
    by (simp add: slow_web_def timeout_site_def)
  show ?thesis
    using navigation_exhausted[where pathname = example_pathname and u = news_url
        and web = slow_web and toISOString = example_toISOString,
        THEN conjunct2, THEN conjunct2, THEN conjunct2, THEN conjunct1, THEN mp, OF h]
    by (simp only: c if_True)
qed

text \<open>
  The claim as stated fails when the release of the browser fails: every navigation
  times out, the empty result is on its way out, and the rejection of
  \<^verbatim>\<open>browser.close()\<close> in the \<^verbatim>\<open>finally\<close> block is raised to the caller instead.
\<close>

theorem navigation_exhausted_counterexample:
  "isHomepage example_pathname news_url = Inr False
   \<and> goto (stuck_web news_url) 1 = TimerWon
   \<and> goto (stuck_web news_url) 2 = TimerWon
   \<and> goto (stuck_web news_url) 3 = TimerWon
   \<and> fst (scrapeContent_esm example_pathname stuck_web news_url) = Inl CloseFailed
   \<and> fst (scrapeContent_cjs example_toISOString example_pathname stuck_web news_url) = Inl CloseFailed"
  by (simp add: news_url_article stuck_web_def timeout_site_def scrapeContent_esm_def
      scrapeContent_cjs_def scrapeContent_outcome)

text \<open>
  Claim C4, as amended. The text of a container is the text of all elements its
  selector matches, concatenated and trimmed. In the ES-module copy the content extractor
  tries the selectors of \<open>contentSelectors\<close> in order and takes the text of the first
  container that is longer than 200 code units; only when there is none it takes the
  space-joined paragraph text, and only when that is shorter than 100 code units the
  whole-body text. So for a document whose only content container holds 250 characters
  and whose paragraphs total 50, it returns the container's text, and when no container
  exceeds 200 and the paragraphs total 300 it returns the paragraph text. The CommonJS
  copy tries the selectors of \<open>articleSelectors\<close> in order and accepts the first container
  longer than 500 code units, to which it prepends the title and a space; when there is
  none it composes, separated by single spaces, the title, the headings, the paragraphs,
  the list items and the structural text outside paragraphs and divisions; and it takes
  the whole-body text instead when the composed text, trimmed, is shorter than 50 code
  units.
\<close>

theorem extractText_esm_chain:
  "contentSelectors =
     [''article'', ''.article'', ''.content'', ''#content'', ''main'', ''.post'', ''.entry'',
      ''.story'', ''.text'', ''.body'']
   \<and> extractText_esm q =
       (case find (\<lambda>sel. 200 < length (trim (sel_text (q sel)))) contentSelectors of
          Some sel \<Rightarrow> trim (sel_text (q sel))
        | None \<Rightarrow>
            if length (trim (join_sp (map (\<lambda>el. trim (el_text el)) (q ''p'')))) < 100
            then trim (sel_text (q ''body''))
            else trim (join_sp (map (\<lambda>el. trim (el_text el)) (q ''p''))))
   \<and> (sel \<in> set contentSelectors \<and> (\<forall>s\<in>set contentSelectors. s \<noteq> sel \<longrightarrow> q s = [])
        \<and> length (trim (sel_text (q sel))) = 250
        \<and> length (join_sp (map (\<lambda>el. trim (el_text el)) (q ''p''))) = 50
        \<longrightarrow> extractText_esm q = trim (sel_text (q sel)))
   \<and> ((\<forall>s\<in>set contentSelectors. length (trim (sel_text (q s))) \<le> 200)
        \<and> length (trim (join_sp (map (\<lambda>el. trim (el_text el)) (q ''p'')))) = 300
        \<longrightarrow> extractText_esm q = trim (join_sp (map (\<lambda>el. trim (el_text el)) (q ''p''))))
   \<and> articleSelectors =
     [''article'', ''.article'', ''.post'', ''.entry'', ''.content'', ''#content'',
      ''.article-content'', ''.post-content'', ''.entry-content'', ''main'', ''[role='main']'',
      ''.main-content'', ''#main-content'', ''.body-content'', ''#body-content'']
   \<and> composeText_cjs q =
       (case find (\<lambda>sel. 500 < length (trim (sel_text (q sel)))) articleSelectors of
          Some sel \<Rightarrow> extractTitle q @ [sp] @ trim (sel_text (q sel))
        | None \<Rightarrow>
            extractTitle q @ [sp]
            @ join_sp (map (\<lambda>el. trim (el_text el)) (q ''h1, h2, h3, h4, h5, h6'')) @ [sp]
            @ join_sp (map (\<lambda>el. trim (el_text el)) (q ''p'')) @ [sp]
            @ join_sp (map (\<lambda>el. trim (el_text el)) (q ''li'')) @ [sp]
            @ join_sp (map (\<lambda>el. trim (el_bare el))
                 (q ''article, section, main, .content, #content'')))
   \<and> extractText_cjs q =
       (if length (trim (composeText_cjs q)) < 50 then trim (sel_text (q ''body''))
        else composeText_cjs q)"
proof -
  have 1: "contentSelectors =
     [''article'', ''.article'', ''.content'', ''#content'', ''main'', ''.post'', ''.entry'',
      ''.story'', ''.text'', ''.body'']"
    by (simp add: contentSelectors_def)
  have 2: "extractText_esm q =
       (case find (\<lambda>sel. 200 < length (trim (sel_text (q sel)))) contentSelectors of
          Some sel \<Rightarrow> trim (sel_text (q sel))
        | None \<Rightarrow>
            if length (trim (join_sp (map (\<lambda>el. trim (el_text el)) (q ''p'')))) < 100
            then trim (sel_text (q ''body''))
            else trim (join_sp (map (\<lambda>el. trim (el_text el)) (q ''p''))))"
    by (rule extractText_esm_find)
  have 3: "sel \<in> set contentSelectors \<and> (\<forall>s\<in>set contentSelectors. s \<noteq> sel \<longrightarrow> q s = [])
        \<and> length (trim (sel_text (q sel))) = 250
        \<and> length (join_sp (map (\<lambda>el. trim (el_text el)) (q ''p''))) = 50
        \<longrightarrow> extractText_esm q = trim (sel_text (q sel))"
  proof (intro impI, elim conjE)
    assume m: "sel \<in> set contentSelectors"
      and o: "\<forall>s\<in>set contentSelectors. s \<noteq> sel \<longrightarrow> q s = []"
      and l: "length (trim (sel_text (q sel))) = 250"
    have "\<forall>s\<in>set contentSelectors. s \<noteq> sel \<longrightarrow> \<not> 200 < length (trim (sel_text (q s)))"
      using o by simp
    with m have "find (\<lambda>sel. 200 < length (trim (sel_text (q sel)))) contentSelectors = Some sel"
      using l by (intro find_unique) simp_all
    then show "extractText_esm q = trim (sel_text (q sel))"
      by (simp only: 2 option.case)
  qed
  have 4: "(\<forall>s\<in>set contentSelectors. length (trim (sel_text (q s))) \<le> 200)
        \<and> length (trim (join_sp (map (\<lambda>el. trim (el_text el)) (q ''p'')))) = 300
        \<longrightarrow> extractText_esm q = trim (join_sp (map (\<lambda>el. trim (el_text el)) (q ''p'')))"
  proof (intro impI, elim conjE)
    assume a: "\<forall>s\<in>set contentSelectors. length (trim (sel_text (q s))) \<le> 200"
      and l: "length (trim (join_sp (map (\<lambda>el. trim (el_text el)) (q ''p'')))) = 300"
    have "find (\<lambda>sel. 200 < length (trim (sel_text (q sel)))) contentSelectors = None"
      using a by (auto simp: find_None_iff)
    then show "extractText_esm q = trim (join_sp (map (\<lambda>el. trim (el_text el)) (q ''p'')))"
      using l by (simp add: 2)
  qed
  have 5: "articleSelectors =
     [''article'', ''.article'', ''.post'', ''.entry'', ''.content'', ''#content'',
      ''.article-content'', ''.post-content'', ''.entry-content'', ''main'', ''[role='main']'',
      ''.main-content'', ''#main-content'', ''.body-content'', ''#body-content'']"
    by (simp add: articleSelectors_def)
  note 6 = composeText_cjs_find[of q]
  note 7 = extractText_cjs_fallback[of q]
  from 1 2 3 4 5 6 7 show ?thesis
    by (intro conjI)
qed

text \<open>
  The theorem at the document with an article of 250 letters and a paragraph of 50: the
  ES-module extractor returns the 250 letters of the article.
\<close>

theorem extractText_esm_chain_witness:
  "length (trim (sel_text (container_doc ''article''))) = 250
   \<and> length (join_sp (map (\<lambda>el. trim (el_text el)) (container_doc ''p''))) = 50
   \<and> extractText_esm container_doc = replicate 250 0x61"
proof -
  have t: "trim (sel_text (container_doc ''article'')) = replicate 250 0x61"
    by (simp add: container_doc_article trim_replicate)
  have m: "''article'' \<in> set contentSelectors"
    by (simp add: contentSelectors_def)
  have o: "\<forall>s\<in>set contentSelectors. s \<noteq> ''article'' \<longrightarrow> container_doc s = []"
    by (simp add: contentSelectors_def container_doc_def)
  have l: "length (trim (sel_text (container_doc ''article''))) = 250"
    by (simp add: t)
  have p: "length (join_sp (map (\<lambda>el. trim (el_text el)) (container_doc ''p''))) = 50"
    by (simp add: container_doc_def trim_replicate)
  have "extractText_esm container_doc = trim (sel_text (container_doc ''article''))"
    by (rule extractText_esm_chain[where q = container_doc and sel = "''article''",
          THEN conjunct2, THEN conjunct2, THEN conjunct1, THEN mp])
       (intro conjI, rule m, rule o, rule l, rule p)
  with l p show ?thesis
    by (simp only: t simp_thms)
qed

text \<open>
  The claim as stated fails on the CommonJS copy: for the same document its container
  loop rejects the 250 letters (the bar is 500), and the text handed to the normaliser is
  the paragraph's text followed by the article's, not the container's text.
\<close>

theorem extractText_cjs_counterexample:
  "sel_text (container_doc ''article'') = replicate 250 0x61
   \<and> extractText_cjs container_doc
       = [sp, sp] @ replicate 50 0x62 @ [sp, sp] @ replicate 250 0x61
   \<and> extractText_cjs container_doc \<noteq> sel_text (container_doc ''article'')
   \<and> cleanContent_cjs (extractText_cjs container_doc) \<noteq> sel_text (container_doc ''article'')"
proof -
  have t: "extractTitle container_doc = []"
    by (simp add: extractTitle_def container_doc_def)
  have m: "find_main container_doc [] articleSelectors = replicate 250 0x61"
    by (simp add: articleSelectors_def container_doc_def sel_text_def trim_replicate Let_def)
  have c: "composeText_cjs container_doc
             = [sp, sp] @ replicate 50 0x62 @ [sp, sp] @ replicate 250 0x61"
    by (simp add: composeText_cjs_def t m Let_def container_doc_def trim_replicate)
  have "trim ([sp, sp] @ replicate 50 0x62 @ [sp, sp] @ replicate 250 0x61)
          = replicate 50 0x62 @ [sp, sp] @ replicate 250 0x61"
    by (simp add: trim_ws_Cons trim_id hd_append)
  then have b: "\<not> bodyFallback_cjs container_doc"
    by (simp add: bodyFallback_cjs_def c)
  have e: "extractText_cjs container_doc
             = [sp, sp] @ replicate 50 0x62 @ [sp, sp] @ replicate 250 0x61"
    using b by (simp add: extractText_cjs_def c)
  have n: "[sp, sp] @ replicate 50 0x62 @ [sp, sp] @ replicate 250 0x61 \<noteq> replicate 250 (0x61 :: 16 word)"
    by (simp add: sp_def)
  have h: "hd (cleanContent_cjs ([sp, sp] @ replicate 50 0x62 @ [sp, sp] @ replicate 250 0x61)) = 0x62"
    by (simp add: cleanContent_cjs_spec normalize_spec_ws_Cons normalize_spec_append_ws
        tokens_eq_Nil normalize_spec_word hd_append)
  have d: "cleanContent_cjs ([sp, sp] @ replicate 50 0x62 @ [sp, sp] @ replicate 250 0x61)
      \<noteq> replicate 250 0x61"
  proof
    assume "cleanContent_cjs ([sp, sp] @ replicate 50 0x62 @ [sp, sp] @ replicate 250 0x61)
      = replicate 250 0x61"
    with h have "hd (replicate 250 (0x61 :: 16 word)) = 0x62"
      by simp
    then show False
      by simp
  qed
  show ?thesis
    using e n d by (simp only: container_doc_article simp_thms)
qed

text \<open>
  Claim C5. \<^verbatim>\<open>isHomepage\<close> never raises: for every URL string it returns a boolean. A URL
  that fails to parse is reported not skippable. The root path, \<^verbatim>\<open>/index.html\<close> and
  \<^verbatim>\<open>/home/\<close> are skippable, and so is every boilerplate name (\<^verbatim>\<open>about\<close>, \<^verbatim>\<open>contact\<close>,
  \<^verbatim>\<open>faq\<close>, \<^verbatim>\<open>help\<close>, \<^verbatim>\<open>support\<close>, \<^verbatim>\<open>terms\<close>, \<^verbatim>\<open>privacy\<close>, \<^verbatim>\<open>login\<close>, \<^verbatim>\<open>signup\<close>,
  \<^verbatim>\<open>register\<close>, \<^verbatim>\<open>account\<close>) with or without a trailing slash, in any letter case. The
  path \<^verbatim>\<open>/2025/06/19/article-slug/\<close> is not skippable.
\<close>

theorem isHomepage_classifies:
  "(\<exists>b. isHomepage pathname u = Inr b)
   \<and> (pathname u = None \<longrightarrow> isHomepage pathname u = Inr False)
   \<and> (pathname u = Some p \<and> (p = ''/'' \<or> map lower p = ''/index.html'' \<or> map lower p = ''/home/'')
        \<longrightarrow> isHomepage pathname u = Inr True)
   \<and> (pathname u = Some p \<and> name \<in> set boilerplate
        \<and> (map lower p = ''/'' @ name \<or> map lower p = ''/'' @ name @ ''/'')
        \<longrightarrow> isHomepage pathname u = Inr True)
   \<and> (pathname u = Some p \<and> map lower p = ''/2025/06/19/article-slug/''
        \<longrightarrow> isHomepage pathname u = Inr False)"
proof -
  have 1: "\<exists>b. isHomepage pathname u = Inr b"
    by (rule isHomepage_total)
  have 2: "pathname u = None \<longrightarrow> isHomepage pathname u = Inr False"
    by (simp add: isHomepage_def isHomepage_try_def)
  have 3: "pathname u = Some p \<and> (p = ''/'' \<or> map lower p = ''/index.html'' \<or> map lower p = ''/home/'')
        \<longrightarrow> isHomepage pathname u = Inr True"
    by (auto simp: isHomepage_def isHomepage_try_def homepagePatterns_def)
  have 4: "pathname u = Some p \<and> name \<in> set boilerplate
        \<and> (map lower p = ''/'' @ name \<or> map lower p = ''/'' @ name @ ''/'')
        \<longrightarrow> isHomepage pathname u = Inr True"
    unfolding isHomepage_def isHomepage_try_def nonArticlePatterns_def list_ex_Dir
    by auto
  have 5: "pathname u = Some p \<and> map lower p = ''/2025/06/19/article-slug/''
        \<longrightarrow> isHomepage pathname u = Inr False"
  proof (intro impI, elim conjE)
    assume "pathname u = Some p" and "map lower p = ''/2025/06/19/article-slug/''"
    then show "isHomepage pathname u = Inr False"
      by (rule not_homepage)
  qed
  from 1 2 3 4 5 show ?thesis
    by (intro conjI)
qed

text \<open>
  The theorem at four URLs: \<^verbatim>\<open>/Privacy/\<close> and the root are skipped, the article is
  not, and a string without a scheme, which does not parse, is not.
\<close>

theorem isHomepage_classifies_witness:
  "isHomepage example_pathname (js ''https://example.com/Privacy/'') = Inr True
   \<and> isHomepage example_pathname (js ''https://example.com/'') = Inr True
   \<and> isHomepage example_pathname (js ''https://example.com/2025/06/19/article-slug/'') = Inr False
   \<and> isHomepage example_pathname (js ''example.com/about'') = Inr False"
proof -
  have a: "example_pathname (js ''https://example.com/Privacy/'') = Some ''/Privacy/''"
    by (simp add: example_pathname_def)
  have b: "example_pathname (js ''https://example.com/'') = Some ''/''"
    by (simp add: example_pathname_def js_def)
  have c: "example_pathname (js ''https://example.com/2025/06/19/article-slug/'')
             = Some ''/2025/06/19/article-slug/''"
    by (simp add: example_pathname_def js_def)
  have d: "example_pathname (js ''example.com/about'') = None"
    by (simp add: example_pathname_def js_def)
  have n: "''privacy'' \<in> set boilerplate" "map lower ''/Privacy/'' = ''/'' @ ''privacy'' @ ''/''"
    by (simp_all add: boilerplate_def lower_def)
  have r: "''/'' = ''/'' \<or> map lower ''/'' = ''/index.html'' \<or> map lower ''/'' = ''/home/''"
    by simp
  have w1: "isHomepage example_pathname (js ''https://example.com/Privacy/'') = Inr True"
    by (rule isHomepage_classifies[where p = "''/Privacy/''" and name = "''privacy''",
          THEN conjunct2, THEN conjunct2, THEN conjunct2, THEN conjunct1, THEN mp])
       (intro conjI disjI2, rule a, rule n(1), rule n(2))
  have w2: "isHomepage example_pathname (js ''https://example.com/'') = Inr True"
    by (rule isHomepage_classifies[where p = "''/''",
          THEN conjunct2, THEN conjunct2, THEN conjunct1, THEN mp])
       (intro conjI, rule b, rule r)
  have w3: "isHomepage example_pathname (js ''https://example.com/2025/06/19/article-slug/'') = Inr False"
    by (rule isHomepage_classifies[where p = "''/2025/06/19/article-slug/''",
          THEN conjunct2, THEN conjunct2, THEN conjunct2, THEN conjunct2, THEN mp])
       (intro conjI, rule c, rule article_path_lower)
  have w4: "isHomepage example_pathname (js ''example.com/about'') = Inr False"
    by (rule isHomepage_classifies[THEN conjunct2, THEN conjunct1, THEN mp]) (rule d)
  from w1 w2 w3 w4 show ?thesis
    by (intro conjI)
qed

text \<open>
  Claim C6. The text normaliser \<^verbatim>\<open>cleanContent\<close> is a function of its argument alone. In
  both copies it returns the non-whitespace runs of the input joined by single ASCII
  spaces: every run of whitespace (line breaks, tabs, non-breaking spaces and the other
  code points of \<^verbatim>\<open>\s\<close>) inside the text becomes one space, and whitespace at either end
  is removed. The result is tidy, trimming it again changes nothing, and the function is
  idempotent. \<^verbatim>\<open>cleanContent("a\n\n\tb   c")\<close> is \<^verbatim>\<open>"a b c"\<close>.
\<close>

theorem cleanContent_normalizes:
  "cleanContent_esm (cleanContent_esm x) = cleanContent_esm x
   \<and> cleanContent_cjs (cleanContent_cjs x) = cleanContent_cjs x
   \<and> cleanContent_esm x = normalize_spec x
   \<and> cleanContent_cjs x = normalize_spec x
   \<and> tidy (cleanContent_esm x) \<and> trim (cleanContent_esm x) = cleanContent_esm x
   \<and> tidy (cleanContent_cjs x) \<and> trim (cleanContent_cjs x) = cleanContent_cjs x
   \<and> cleanContent_esm [0x61, 0xA, 0xA, 0x9, 0x62, 0x20, 0x20, 0x20, 0x63] = js ''a b c''
   \<and> cleanContent_cjs [0x61, 0xA, 0xA, 0x9, 0x62, 0x20, 0x20, 0x20, 0x63] = js ''a b c''"
proof -
  have e: "cleanContent_esm [0x61, 0xA, 0xA, 0x9, 0x62, 0x20, 0x20, 0x20, 0x63] = js ''a b c''"
    by (simp add: cleanContent_esm_def trim_def trimEnd_def is_ws_def sp_def js_def)
  have c: "cleanContent_cjs [0x61, 0xA, 0xA, 0x9, 0x62, 0x20, 0x20, 0x20, 0x63] = js ''a b c''"
    by (simp add: cleanContent_cjs_def replace_each_def trim_def trimEnd_def is_ws_def sp_def js_def)
  show ?thesis
    by (simp only: cleanContent_esm_spec cleanContent_cjs_spec normalize_spec_idem
        tidy_normalize_spec trim_normalize_spec e[unfolded cleanContent_esm_spec] simp_thms)
qed

text \<open>
  The theorem at a string with a leading space and non-breaking space, a carriage
  return, line feed and tab between \<open>x\<close> and \<open>y\<close>, an em space between \<open>y\<close> and \<open>z\<close>, and a
  trailing byte-order mark: both copies give
  \<^verbatim>\<open>"x y z"\<close>, and cleaning that again gives it back.
\<close>

theorem cleanContent_normalizes_witness:
  "cleanContent_esm [0x20, 0xA0, 0x78, 0xD, 0xA, 0x9, 0x79, 0x20, 0x2003, 0x20, 0x7A, 0xFEFF] = js ''x y z''
   \<and> cleanContent_cjs [0x20, 0xA0, 0x78, 0xD, 0xA, 0x9, 0x79, 0x20, 0x2003, 0x20, 0x7A, 0xFEFF] = js ''x y z''
   \<and> cleanContent_esm (js ''x y z'') = js ''x y z''
   \<and> cleanContent_cjs (js ''x y z'') = js ''x y z''"
proof -
  let ?x = "[0x20, 0xA0, 0x78, 0xD, 0xA, 0x9, 0x79, 0x20, 0x2003, 0x20, 0x7A, 0xFEFF] :: jsstring"
  have e: "cleanContent_esm ?x = js ''x y z''"
    by (simp add: cleanContent_esm_def trim_def trimEnd_def is_ws_def sp_def js_def)
  have c: "cleanContent_cjs ?x = js ''x y z''"
    by (simp add: cleanContent_cjs_def replace_each_def trim_def trimEnd_def is_ws_def sp_def js_def)
  have i: "cleanContent_esm (cleanContent_esm ?x) = cleanContent_esm ?x
      \<and> cleanContent_cjs (cleanContent_cjs ?x) = cleanContent_cjs ?x"
    using cleanContent_normalizes[of ?x] by blast
  show ?thesis
    using i unfolding e c by simp
qed

text \<open>
  Claim C7, as amended. Neither copy of \<^verbatim>\<open>extractPublicationDate\<close> raises. The ES-module
  copy probes the ten selectors of \<open>dateSelectors\<close> in that order (the
  \<^verbatim>\<open>article:published_time\<close> meta tag, the \<^verbatim>\<open>publish_date\<close>, \<^verbatim>\<open>date\<close>, \<^verbatim>\<open>pubdate\<close> and
  \<^verbatim>\<open>publication_date\<close> meta tags, \<^verbatim>\<open>time[datetime]\<close>, then \<^verbatim>\<open>.date\<close>, \<^verbatim>\<open>.published\<close>,
  \<^verbatim>\<open>.pubdate\<close>, \<^verbatim>\<open>.timestamp\<close>) and returns, trimmed, the first non-empty value among
  content attribute, datetime attribute and text; it returns none when no selector has
  one. For the \<^verbatim>\<open>article:published_time\<close> content \<^verbatim>\<open>2025-06-19T10:00:00Z\<close> it returns
  that string. The CommonJS copy reads only the content of the \<^verbatim>\<open>article:published_time\<close>,
  \<^verbatim>\<open>pubdate\<close>, \<^verbatim>\<open>publication_date\<close> and \<^verbatim>\<open>date\<close> meta tags, in that order, and then the
  datetime attribute of the first \<^verbatim>\<open>time[datetime]\<close> element; of the first non-empty value
  it returns the calendar date of the ISO form when the runtime parses it, and none when
  it does not. For the example it returns \<^verbatim>\<open>2025-06-19\<close> when the runtime prints the date
  as \<^verbatim>\<open>2025-06-19T10:00:00.000Z\<close>.
\<close>

theorem extractPublicationDate_probes:
  "dateSelectors =
     [''meta[property=\"article:published_time\"]'', ''meta[name=\"publish_date\"]'',
      ''meta[name=\"date\"]'', ''meta[name=\"pubdate\"]'', ''meta[name=\"publication_date\"]'',
      ''time[datetime]'', ''.date'', ''.published'', ''.pubdate'', ''.timestamp'']
   \<and> extractPublicationDate_esm q =
       (case find (\<lambda>sel. truthy (date_of (q sel))) dateSelectors of
          None \<Rightarrow> None
        | Some sel \<Rightarrow> map_option trim (date_of (q sel)))
   \<and> (attr (q ''meta[property=\"article:published_time\"]'') ''content'' = Some (js ''2025-06-19T10:00:00Z'')
        \<longrightarrow> extractPublicationDate_esm q = Some (js ''2025-06-19T10:00:00Z''))
   \<and> extractPublicationDate_cjs toISOString q =
       (case js_or (attr (q ''meta[property=\"article:published_time\"]'') ''content'')
               (js_or (attr (q ''meta[name=\"pubdate\"]'') ''content'')
                 (js_or (attr (q ''meta[name=\"publication_date\"]'') ''content'')
                   (js_or (attr (q ''meta[name=\"date\"]'') ''content'')
                      (attr (q ''time[datetime]'') ''datetime'')))) of
          None \<Rightarrow> None
        | Some d \<Rightarrow> if d = [] then None else map_option (takeWhile (\<lambda>c. c \<noteq> 0x54)) (toISOString d))
   \<and> (attr (q ''meta[property=\"article:published_time\"]'') ''content'' = Some (js ''2025-06-19T10:00:00Z'')
        \<and> toISOString (js ''2025-06-19T10:00:00Z'') = Some (js ''2025-06-19T10:00:00.000Z'')
        \<longrightarrow> extractPublicationDate_cjs toISOString q = Some (js ''2025-06-19''))"
proof -
  have 1: "dateSelectors =
     [''meta[property=\"article:published_time\"]'', ''meta[name=\"publish_date\"]'',
      ''meta[name=\"date\"]'', ''meta[name=\"pubdate\"]'', ''meta[name=\"publication_date\"]'',
      ''time[datetime]'', ''.date'', ''.published'', ''.pubdate'', ''.timestamp'']"
    by (simp add: dateSelectors_def)
  have 2: "extractPublicationDate_esm q =
       (case find (\<lambda>sel. truthy (date_of (q sel))) dateSelectors of
          None \<Rightarrow> None
        | Some sel \<Rightarrow> map_option trim (date_of (q sel)))"
    by (simp only: extractPublicationDate_esm_def probe_dates_find)
  have 3: "attr (q ''meta[property=\"article:published_time\"]'') ''content'' = Some (js ''2025-06-19T10:00:00Z'')
        \<longrightarrow> extractPublicationDate_esm q = Some (js ''2025-06-19T10:00:00Z'')"
  proof
    assume a: "attr (q ''meta[property=\"article:published_time\"]'') ''content'' = Some (js ''2025-06-19T10:00:00Z'')"
    have ne: "js ''2025-06-19T10:00:00Z'' \<noteq> []"
      by (simp add: js_def)
    have d: "date_of (q ''meta[property=\"article:published_time\"]'') = Some (js ''2025-06-19T10:00:00Z'')"
      using ne by (simp add: date_of_def js_or_def truthy_def a)
    have f: "find (\<lambda>sel. truthy (date_of (q sel))) dateSelectors
               = Some ''meta[property=\"article:published_time\"]''"
      using ne by (simp add: dateSelectors_def d truthy_def)
    show "extractPublicationDate_esm q = Some (js ''2025-06-19T10:00:00Z'')"
      by (simp only: 2 f d option.case option.map trim_example_date)
  qed
  have 4: "extractPublicationDate_cjs toISOString q =
       (case js_or (attr (q ''meta[property=\"article:published_time\"]'') ''content'')
               (js_or (attr (q ''meta[name=\"pubdate\"]'') ''content'')
                 (js_or (attr (q ''meta[name=\"publication_date\"]'') ''content'')
                   (js_or (attr (q ''meta[name=\"date\"]'') ''content'')
                      (attr (q ''time[datetime]'') ''datetime'')))) of
          None \<Rightarrow> None
        | Some d \<Rightarrow> if d = [] then None else map_option (takeWhile (\<lambda>c. c \<noteq> 0x54)) (toISOString d))"
    by (rule extractPublicationDate_cjs_chain)
  have 5: "attr (q ''meta[property=\"article:published_time\"]'') ''content'' = Some (js ''2025-06-19T10:00:00Z'')
        \<and> toISOString (js ''2025-06-19T10:00:00Z'') = Some (js ''2025-06-19T10:00:00.000Z'')
        \<longrightarrow> extractPublicationDate_cjs toISOString q = Some (js ''2025-06-19'')"
  proof (intro impI, elim conjE)
    assume a: "attr (q ''meta[property=\"article:published_time\"]'') ''content'' = Some (js ''2025-06-19T10:00:00Z'')"
      and t: "toISOString (js ''2025-06-19T10:00:00Z'') = Some (js ''2025-06-19T10:00:00.000Z'')"
    have ne: "js ''2025-06-19T10:00:00Z'' \<noteq> []"
      by (simp add: js_def)
    have j: "js_or (Some (js ''2025-06-19T10:00:00Z'')) x = Some (js ''2025-06-19T10:00:00Z'')" for x
      using ne by (simp add: js_or_def truthy_def)
    show "extractPublicationDate_cjs toISOString q = Some (js ''2025-06-19'')"
      using ne by (simp only: 4 a j option.case if_False t option.map date_part_example)
  qed
  from 1 2 3 4 5 show ?thesis
    by (intro conjI)
qed

text \<open>
  The theorem at the document whose only date is the \<^verbatim>\<open>article:published_time\<close> meta
  tag: the ES-module copy returns the string, the CommonJS copy its calendar date.
\<close>

theorem extractPublicationDate_probes_witness:
  "extractPublicationDate_esm published_time_doc = Some (js ''2025-06-19T10:00:00Z'')
   \<and> extractPublicationDate_cjs example_toISOString published_time_doc = Some (js ''2025-06-19'')"
proof -
  have a: "attr (published_time_doc ''meta[property=\"article:published_time\"]'') ''content''
             = Some (js ''2025-06-19T10:00:00Z'')"
    by (simp add: published_time_doc_def attr_def)
  have t: "example_toISOString (js ''2025-06-19T10:00:00Z'') = Some (js ''2025-06-19T10:00:00.000Z'')"
    by (simp add: example_toISOString_def)
  have e: "extractPublicationDate_esm published_time_doc = Some (js ''2025-06-19T10:00:00Z'')"
    by (rule extractPublicationDate_probes[where q = published_time_doc,
          THEN conjunct2, THEN conjunct2, THEN conjunct1, THEN mp]) (rule a)
  have c: "extractPublicationDate_cjs example_toISOString published_time_doc = Some (js ''2025-06-19'')"
    by (rule extractPublicationDate_probes[where q = published_time_doc,
          THEN conjunct2, THEN conjunct2, THEN conjunct2, THEN conjunct2, THEN mp])
       (intro conjI, rule a, rule t)
  from e c show ?thesis
    by (intro conjI)
qed

text \<open>
  The claim as stated fails on the CommonJS copy: a document whose only date is a
  \<^verbatim>\<open>publish_date\<close> meta tag has a value at the second source of the claim's order, the
  ES-module copy returns it, and the CommonJS copy returns none although the runtime
  parses the value.
\<close>

theorem extractPublicationDate_cjs_counterexample:
  "attr (publish_date_doc ''meta[name=\"publish_date\"]'') ''content'' = Some (js ''2025-06-19T10:00:00Z'')
   \<and> example_toISOString (js ''2025-06-19T10:00:00Z'') = Some (js ''2025-06-19T10:00:00.000Z'')
   \<and> extractPublicationDate_esm publish_date_doc = Some (js ''2025-06-19T10:00:00Z'')
   \<and> extractPublicationDate_cjs example_toISOString publish_date_doc = None"
proof -
  have a: "attr (publish_date_doc ''meta[name=\"publish_date\"]'') ''content'' = Some (js ''2025-06-19T10:00:00Z'')"
    by (simp add: publish_date_doc_def attr_def)
  have t: "example_toISOString (js ''2025-06-19T10:00:00Z'') = Some (js ''2025-06-19T10:00:00.000Z'')"
    by (simp add: example_toISOString_def)
  have ne: "js ''2025-06-19T10:00:00Z'' \<noteq> []"
    by (simp add: js_def)
  have d: "date_of (publish_date_doc ''meta[name=\"publish_date\"]'') = Some (js ''2025-06-19T10:00:00Z'')"
    using ne by (simp add: date_of_def js_or_def truthy_def a)
  have n: "publish_date_doc ''meta[property=\"article:published_time\"]'' = []"
    by (simp add: publish_date_doc_def)
  have p: "publish_date_doc ''meta[name=\"publish_date\"]'' \<noteq> []"
    by (simp add: publish_date_doc_def)
  have e: "extractPublicationDate_esm publish_date_doc = Some (js ''2025-06-19T10:00:00Z'')"
    using ne p
    by (simp add: extractPublicationDate_esm_def dateSelectors_def n d trim_example_date Let_def)
  have c: "extractPublicationDate_cjs example_toISOString publish_date_doc = None"
    by (simp add: extractPublicationDate_cjs_def publish_date_doc_def js_or_def truthy_def)
  from a t e c show ?thesis
    by (intro conjI)
qed

text \<open>
  Claim C8. In both copies, a call of \<^verbatim>\<open>scrapeContent\<close> calls \<^verbatim>\<open>browser.close()\<close> exactly
  once when it acquired a browser (the URL is not skipped and \<^verbatim>\<open>puppeteer.launch\<close>
  resolved) and never otherwise, whatever happens in between: success, navigation
  exhaustion, a failed load, insufficient content or a thrown error. The close is the last
  call the function makes, and the launch is the first. A skipped URL makes no call at
  all.
\<close>

theorem browser_closed_once:
  "count_list (snd (scrapeContent_esm pathname web u)) Close =
     (if isHomepage pathname u = Inr False \<and> launch_ok (web u) then 1 else 0)
   \<and> count_list (snd (scrapeContent_cjs toISOString pathname web u)) Close =
     (if isHomepage pathname u = Inr False \<and> launch_ok (web u) then 1 else 0)
   \<and> (isHomepage pathname u = Inr False \<and> launch_ok (web u) \<longrightarrow>
        hd (snd (scrapeContent_esm pathname web u)) = Launch
        \<and> last (snd (scrapeContent_esm pathname web u)) = Close
        \<and> hd (snd (scrapeContent_cjs toISOString pathname web u)) = Launch
        \<and> last (snd (scrapeContent_cjs toISOString pathname web u)) = Close)
   \<and> (isHomepage pathname u = Inr True \<longrightarrow>
        snd (scrapeContent_esm pathname web u) = []
        \<and> snd (scrapeContent_cjs toISOString pathname web u) = [])"
proof -
  have 1: "count_list (snd (scrapeContent_esm pathname web u)) Close =
     (if isHomepage pathname u = Inr False \<and> launch_ok (web u) then 1 else 0)"
    unfolding scrapeContent_esm_def by (rule scrapeContent_close_count)
  have 2: "count_list (snd (scrapeContent_cjs toISOString pathname web u)) Close =
     (if isHomepage pathname u = Inr False \<and> launch_ok (web u) then 1 else 0)"
    unfolding scrapeContent_cjs_def by (rule scrapeContent_close_count)
  have 3: "isHomepage pathname u = Inr False \<and> launch_ok (web u) \<longrightarrow>
        hd (snd (scrapeContent_esm pathname web u)) = Launch
        \<and> last (snd (scrapeContent_esm pathname web u)) = Close
        \<and> hd (snd (scrapeContent_cjs toISOString pathname web u)) = Launch
        \<and> last (snd (scrapeContent_cjs toISOString pathname web u)) = Close"
    unfolding scrapeContent_esm_def scrapeContent_cjs_def
    using scrapeContent_close_last[of pathname u web] by blast
  have 4: "isHomepage pathname u = Inr True \<longrightarrow>
        snd (scrapeContent_esm pathname web u) = []
        \<and> snd (scrapeContent_cjs toISOString pathname web u) = []"
    by (simp add: scrapeContent_esm_def scrapeContent_cjs_def scrapeContent_def)
  from 1 2 3 4 show ?thesis
    by (intro conjI)
qed

text \<open>
  The theorem at a page that loads, and at a page whose navigation times out three
  times: in each case the browser is closed once, at the end.
\<close>

theorem browser_closed_once_witness:
  "count_list (snd (scrapeContent_esm example_pathname article_web news_url)) Close = 1
   \<and> last (snd (scrapeContent_esm example_pathname article_web news_url)) = Close
   \<and> count_list (snd (scrapeContent_cjs example_toISOString example_pathname slow_web news_url)) Close = 1
   \<and> last (snd (scrapeContent_cjs example_toISOString example_pathname slow_web news_url)) = Close"
proof -
  have a: "isHomepage example_pathname news_url = Inr False \<and> launch_ok (article_web news_url)"
    by (simp add: news_url_article article_web_def good_site_def)
  have b: "isHomepage example_pathname news_url = Inr False \<and> launch_ok (slow_web news_url)"
    by (simp add: news_url_article slow_web_def timeout_site_def)
  note t1 = browser_closed_once[of example_pathname article_web news_url example_toISOString]
  note t2 = browser_closed_once[of example_pathname slow_web news_url example_toISOString]
  have c1: "count_list (snd (scrapeContent_esm example_pathname article_web news_url)) Close = 1"
    using t1[THEN conjunct1] a by simp
  have l1: "last (snd (scrapeContent_esm example_pathname article_web news_url)) = Close"
    using t1[THEN conjunct2, THEN conjunct2, THEN conjunct1, THEN mp, OF a] by simp
  have c2: "count_list (snd (scrapeContent_cjs example_toISOString example_pathname slow_web news_url)) Close = 1"
    using t2[THEN conjunct2, THEN conjunct1] b by simp
  have l2: "last (snd (scrapeContent_cjs example_toISOString example_pathname slow_web news_url)) = Close"
    using t2[THEN conjunct2, THEN conjunct2, THEN conjunct1, THEN mp, OF b] by simp
  from c1 l1 c2 l2 show ?thesis
    by (intro conjI)
qed

text \<open>
  Claim C9, as amended. The ES-module \<^verbatim>\<open>scrapeMultipleUrls\<close> awaits a delay of 1000 ms at
  the end of every iteration: its steps are, for each search result in order, the call
  of \<^verbatim>\<open>scrapeContent\<close> and then the delay, so between the attempts for two consecutive
  search results there is a delay of 1000 ms, and every delay is 1000 ms. The CommonJS
  \<^verbatim>\<open>scrapeMultipleUrls\<close> has no delay: its steps are one skip or one call per search
  result.
\<close>

theorem politeness_delay:
  "snd (scrapeMultipleUrls_esm pathname web rs)
     = concat (map (\<lambda>r. [Visit (url r) (snd (scrapeContent_esm pathname web (url r))), Delay 1000]) rs)
   \<and> (Suc i < length rs \<longrightarrow>
        snd (scrapeMultipleUrls_esm pathname web rs) ! (2 * i)
          = Visit (url (rs ! i)) (snd (scrapeContent_esm pathname web (url (rs ! i))))
        \<and> snd (scrapeMultipleUrls_esm pathname web rs) ! (2 * i + 1) = Delay 1000
        \<and> snd (scrapeMultipleUrls_esm pathname web rs) ! (2 * i + 2)
          = Visit (url (rs ! Suc i)) (snd (scrapeContent_esm pathname web (url (rs ! Suc i)))))
   \<and> (\<forall>ms. Delay ms \<in> set (snd (scrapeMultipleUrls_esm pathname web rs)) \<longrightarrow> ms = 1000)
   \<and> snd (scrapeMultipleUrls_cjs toISOString pathname web rs)
     = map (\<lambda>r. if isHomepage pathname (url r) = Inr True then Skipped (url r)
                  else Visit (url r) (snd (scrapeContent_cjs toISOString pathname web (url r)))) rs
   \<and> (\<forall>ms. Delay ms \<notin> set (snd (scrapeMultipleUrls_cjs toISOString pathname web rs)))"
proof -
  have 1: "snd (scrapeMultipleUrls_esm pathname web rs)
     = concat (map (\<lambda>r. [Visit (url r) (snd (scrapeContent_esm pathname web (url r))), Delay 1000]) rs)"
    by (simp add: scrapeMultipleUrls_esm_def batch_esm_eq)
  have 2: "Suc i < length rs \<longrightarrow>
        snd (scrapeMultipleUrls_esm pathname web rs) ! (2 * i)
          = Visit (url (rs ! i)) (snd (scrapeContent_esm pathname web (url (rs ! i))))
        \<and> snd (scrapeMultipleUrls_esm pathname web rs) ! (2 * i + 1) = Delay 1000
        \<and> snd (scrapeMultipleUrls_esm pathname web rs) ! (2 * i + 2)
          = Visit (url (rs ! Suc i)) (snd (scrapeContent_esm pathname web (url (rs ! Suc i))))"
  proof
    assume a: "Suc i < length rs"
    then have b: "i < length rs"
      by simp
    have c: "2 * i + 2 = 2 * Suc i"
      by simp
    show "snd (scrapeMultipleUrls_esm pathname web rs) ! (2 * i)
          = Visit (url (rs ! i)) (snd (scrapeContent_esm pathname web (url (rs ! i))))
        \<and> snd (scrapeMultipleUrls_esm pathname web rs) ! (2 * i + 1) = Delay 1000
        \<and> snd (scrapeMultipleUrls_esm pathname web rs) ! (2 * i + 2)
          = Visit (url (rs ! Suc i)) (snd (scrapeContent_esm pathname web (url (rs ! Suc i))))"
      unfolding 1 c
      using alternating_nth[OF b, of "\<lambda>r. Visit (url r) (snd (scrapeContent_esm pathname web (url r)))" "Delay 1000"]
        alternating_nth[OF a, of "\<lambda>r. Visit (url r) (snd (scrapeContent_esm pathname web (url r)))" "Delay 1000"]
      by blast
  qed
  have 3: "\<forall>ms. Delay ms \<in> set (snd (scrapeMultipleUrls_esm pathname web rs)) \<longrightarrow> ms = 1000"
    unfolding 1 by auto
  have 4: "snd (scrapeMultipleUrls_cjs toISOString pathname web rs)
     = map (\<lambda>r. if isHomepage pathname (url r) = Inr True then Skipped (url r)
                  else Visit (url r) (snd (scrapeContent_cjs toISOString pathname web (url r)))) rs"
    by (simp add: scrapeMultipleUrls_cjs_def batch_cjs_eq)
  have 5: "\<forall>ms. Delay ms \<notin> set (snd (scrapeMultipleUrls_cjs toISOString pathname web rs))"
    unfolding 4 by auto
  from 1 2 3 4 5 show ?thesis
    by (intro conjI)
qed

text \<open>
  The theorem at the two search results that load: the ES-module copy visits the
  first, waits 1000 ms, visits the second, and waits again.
\<close>

theorem politeness_delay_witness:
  "snd (scrapeMultipleUrls_esm example_pathname five_web two_candidates) ! 1 = Delay 1000
   \<and> length (snd (scrapeMultipleUrls_esm example_pathname five_web two_candidates)) = 4
   \<and> snd (scrapeMultipleUrls_esm example_pathname five_web two_candidates) ! 0
       = Visit news_url (snd (scrapeContent_esm example_pathname five_web news_url))
   \<and> snd (scrapeMultipleUrls_esm example_pathname five_web two_candidates) ! 2
       = Visit other_url (snd (scrapeContent_esm example_pathname five_web other_url))"
proof -
  have l: "Suc 0 < length two_candidates"
    by (simp add: two_candidates_def)
  note t = politeness_delay[of example_pathname five_web two_candidates 0 example_toISOString]
  note n = t[THEN conjunct2, THEN conjunct1, THEN mp, OF l]
  have 1: "snd (scrapeMultipleUrls_esm example_pathname five_web two_candidates) ! 1 = Delay 1000"
    using n by simp
  have 2: "length (snd (scrapeMultipleUrls_esm example_pathname five_web two_candidates)) = 4"
    unfolding t[THEN conjunct1] by (simp add: two_candidates_def)
  have 3: "snd (scrapeMultipleUrls_esm example_pathname five_web two_candidates) ! 0
       = Visit news_url (snd (scrapeContent_esm example_pathname five_web news_url))"
    using n by (simp add: two_candidates_def)
  have 4: "snd (scrapeMultipleUrls_esm example_pathname five_web two_candidates) ! 2
       = Visit other_url (snd (scrapeContent_esm example_pathname five_web other_url))"
    using n by (simp add: two_candidates_def numeral_2_eq_2)
  from 1 2 3 4 show ?thesis
    by (intro conjI)
qed

text \<open>
  The claim as stated fails on the CommonJS copy: for the same two search results it
  makes the two calls of \<^verbatim>\<open>scrapeContent\<close> one after the other, with no delay step.
\<close>

theorem politeness_delay_counterexample:
  "length two_candidates = 2
   \<and> snd (scrapeMultipleUrls_cjs example_toISOString example_pathname five_web two_candidates)
       = [Visit news_url (snd (scrapeContent_cjs example_toISOString example_pathname five_web news_url)),
          Visit other_url (snd (scrapeContent_cjs example_toISOString example_pathname five_web other_url))]
   \<and> Delay 1000 \<notin> set (snd (scrapeMultipleUrls_cjs example_toISOString example_pathname five_web
                             two_candidates))"
  by (simp add: scrapeMultipleUrls_cjs_def batch_cjs_eq two_candidates_def news_url_article
      other_url_article)

text \<open>
  Claim C10, as amended. In the CommonJS copy the text handed to the normaliser, unless
  the whole-body fallback replaces it, is the title text, a space, and what the container
  strategy or the comprehensive fallback produced. The content \<^verbatim>\<open>scrapeContent\<close> returns
  is the normalised form of that text, so it begins with the normalised title text: the
  title with its whitespace runs collapsed and its ends trimmed. It begins with the title
  text itself when normalising leaves the title unchanged.
\<close>

theorem title_prepended:
  "(\<exists>rest. composeText_cjs q = extractTitle q @ sp # rest)
   \<and> (fst (scrapeContent_cjs toISOString pathname web u) = Inr r \<and> scraped.content r \<noteq> []
        \<and> \<not> bodyFallback_cjs (dom (web u))
        \<longrightarrow> scraped.content r = cleanContent_cjs (composeText_cjs (dom (web u)))
          \<and> take (length (cleanContent_cjs (extractTitle (dom (web u))))) (scraped.content r)
              = cleanContent_cjs (extractTitle (dom (web u))))
   \<and> (fst (scrapeContent_cjs toISOString pathname web u) = Inr r \<and> scraped.content r \<noteq> []
        \<and> \<not> bodyFallback_cjs (dom (web u))
        \<and> cleanContent_cjs (extractTitle (dom (web u))) = extractTitle (dom (web u))
        \<longrightarrow> take (length (extractTitle (dom (web u)))) (scraped.content r)
              = extractTitle (dom (web u)))"
proof -
  have 1: "\<exists>rest. composeText_cjs q = extractTitle q @ sp # rest"
    by (rule composeText_cjs_title)
  have 2: "scraped.content r = cleanContent_cjs (composeText_cjs (dom (web u)))
          \<and> take (length (cleanContent_cjs (extractTitle (dom (web u))))) (scraped.content r)
              = cleanContent_cjs (extractTitle (dom (web u)))"
    if a: "fst (scrapeContent_cjs toISOString pathname web u) = Inr r"
      and b: "scraped.content r \<noteq> []" and c: "\<not> bodyFallback_cjs (dom (web u))"
  proof -
    have "r = extract_cjs toISOString (dom (web u))"
      using a b unfolding scrapeContent_cjs_def by (rule scrapeContent_nonempty(1))
    then have r: "scraped.content r = cleanContent_cjs (extractText_cjs (dom (web u)))"
      by (simp add: extract_cjs_content)
    have "extractText_cjs (dom (web u)) = composeText_cjs (dom (web u))"
      using c by (simp add: extractText_cjs_def)
    with r cleanContent_cjs_prefix[OF c] show ?thesis
      by simp
  qed
  have 3: "take (length (extractTitle (dom (web u)))) (scraped.content r) = extractTitle (dom (web u))"
    if a: "fst (scrapeContent_cjs toISOString pathname web u) = Inr r"
      and b: "scraped.content r \<noteq> []" and c: "\<not> bodyFallback_cjs (dom (web u))"
      and d: "cleanContent_cjs (extractTitle (dom (web u))) = extractTitle (dom (web u))"
    using 2[OF a b c, THEN conjunct2] unfolding d .
  from 2 have r2: "fst (scrapeContent_cjs toISOString pathname web u) = Inr r \<and> scraped.content r \<noteq> []
        \<and> \<not> bodyFallback_cjs (dom (web u))
        \<longrightarrow> scraped.content r = cleanContent_cjs (composeText_cjs (dom (web u)))
          \<and> take (length (cleanContent_cjs (extractTitle (dom (web u))))) (scraped.content r)
              = cleanContent_cjs (extractTitle (dom (web u)))"
    by blast
  from 3 have r3: "fst (scrapeContent_cjs toISOString pathname web u) = Inr r \<and> scraped.content r \<noteq> []
        \<and> \<not> bodyFallback_cjs (dom (web u))
        \<and> cleanContent_cjs (extractTitle (dom (web u))) = extractTitle (dom (web u))
        \<longrightarrow> take (length (extractTitle (dom (web u)))) (scraped.content r)
              = extractTitle (dom (web u))"
    by blast
  from 1 r2 r3 show ?thesis
    by (intro conjI)
qed

text \<open>
  The theorem at a page titled \<^verbatim>\<open>News\<close> with a paragraph of 60 letters: the content
  is \<^verbatim>\<open>News\<close>, a space and the letters.
\<close>

theorem title_prepended_witness:
  "fst (scrapeContent_cjs example_toISOString example_pathname (titled_web (js ''News'')) news_url)
     = Inr (extract_cjs example_toISOString (titled_doc (js ''News'')))
   \<and> scraped.content (extract_cjs example_toISOString (titled_doc (js ''News'')))
       = js ''News'' @ sp # replicate 60 0x62
   \<and> take (length (js ''News''))
         (scraped.content (extract_cjs example_toISOString (titled_doc (js ''News''))))
       = js ''News''"
proof -
  let ?r = "extract_cjs example_toISOString (titled_doc (js ''News''))"
  have o: "fst (scrapeContent_cjs example_toISOString example_pathname (titled_web (js ''News'')) news_url)
     = Inr ?r"
    unfolding scrapeContent_cjs_def titled_web_fun
    using news_url_article by (rule good_site_outcome)
  have c: "scraped.content ?r = js ''News'' @ sp # replicate 60 0x62"
    using titled_doc_content[of "[]"] by (simp add: extract_cjs_content)
  have n: "scraped.content ?r \<noteq> []"
    by (simp add: c)
  have f: "\<not> bodyFallback_cjs (dom (titled_web (js ''News'') news_url))"
    using titled_doc_no_fallback[of "[]"] by (simp add: titled_web_dom)
  have t: "cleanContent_cjs (extractTitle (dom (titled_web (js ''News'') news_url)))
             = extractTitle (dom (titled_web (js ''News'') news_url))"
    using news_no_ws news_not_Nil
    by (simp add: titled_web_dom titled_doc_title cleanContent_cjs_spec normalize_spec_word)
  have "take (length (extractTitle (dom (titled_web (js ''News'') news_url)))) (scraped.content ?r)
          = extractTitle (dom (titled_web (js ''News'') news_url))"
    by (rule title_prepended[where web = "titled_web (js ''News'')" and u = news_url
          and pathname = example_pathname and toISOString = example_toISOString,
          THEN conjunct2, THEN conjunct2, THEN mp])
       (intro conjI, rule o, rule n, rule f, rule t)
  then have "take (length (js ''News'')) (scraped.content ?r) = js ''News''"
    by (simp only: titled_web_dom titled_doc_title)
  with o c show ?thesis
    by (intro conjI)
qed

text \<open>
  The claim as stated fails for a title with whitespace at its start, here
  \<^verbatim>\<open><title> News</title>\<close>: the title element is non-empty, the comprehensive fallback
  produces the text, and the content returned begins with \<^verbatim>\<open>News\<close>, not with the title
  text.
\<close>

theorem title_prepended_counterexample:
  "extractTitle (dom (titled_web (sp # js ''News'') news_url)) = sp # js ''News''
   \<and> \<not> bodyFallback_cjs (dom (titled_web (sp # js ''News'') news_url))
   \<and> fst (scrapeContent_cjs example_toISOString example_pathname (titled_web (sp # js ''News'')) news_url)
       = Inr (extract_cjs example_toISOString (titled_doc (sp # js ''News'')))
   \<and> scraped.content (extract_cjs example_toISOString (titled_doc (sp # js ''News'')))
       = js ''News'' @ sp # replicate 60 0x62
   \<and> take (length (sp # js ''News'')) (js ''News'' @ sp # replicate 60 0x62) \<noteq> sp # js ''News''"
proof -
  have 1: "extractTitle (dom (titled_web (sp # js ''News'') news_url)) = sp # js ''News''"
    by (simp add: titled_web_dom titled_doc_title)
  have 2: "\<not> bodyFallback_cjs (dom (titled_web (sp # js ''News'') news_url))"
    using titled_doc_no_fallback[of "[sp]"] by (simp add: titled_web_dom)
  have 3: "fst (scrapeContent_cjs example_toISOString example_pathname (titled_web (sp # js ''News'')) news_url)
       = Inr (extract_cjs example_toISOString (titled_doc (sp # js ''News'')))"
    unfolding scrapeContent_cjs_def titled_web_fun
    using news_url_article by (rule good_site_outcome)
  have 4: "scraped.content (extract_cjs example_toISOString (titled_doc (sp # js ''News'')))
       = js ''News'' @ sp # replicate 60 0x62"
    using titled_doc_content[of "[sp]"] by (simp add: extract_cjs_content)
  have 5: "take (length (sp # js ''News'')) (js ''News'' @ sp # replicate 60 0x62) \<noteq> sp # js ''News''"
    by (simp add: js_def sp_def)
  from 1 2 3 4 5 show ?thesis
    by (intro conjI)
qed

end
